theory Spec2Isabelle
  imports Main "HOL-Library.Word" "HOL-Library.AList"
begin

unbundle bit_operations_syntax

section \<open>Data model of the solution builder (tsbuild.ts)\<close>

text \<open>
  A project is named by the resolved name of its configuration file
  (\<open>ResolvedConfigFileName\<close>) and keyed in every map by its canonical path
  (\<open>ResolvedConfigFilePath\<close>). Dates are milliseconds since the epoch.
\<close>

type_synonym ResolvedConfigFileName = string
type_synonym ResolvedConfigFilePath = string
type_synonym Date = int
type_synonym Diagnostic = string

definition minimumDate :: Date where
  "minimumDate = - 8640000000000000"

definition maximumDate :: Date where
  "maximumDate = 8640000000000000"

text \<open>\<open>newer(date1, date2)\<close>: \<open>date2 > date1 ? date2 : date1\<close>.\<close>

definition newer :: "Date \<Rightarrow> Date \<Rightarrow> Date" where
  "newer date1 date2 = (if date2 > date1 then date2 else date1)"

subsection \<open>Up-to-date statuses\<close>

text \<open>The fields of \<open>Status.UpToDate\<close>; all but the last are optional in the source.\<close>

record UpToDateFields =
  newestInputFileTime :: "Date option"
  newestInputFileName :: "string option"
  newestDeclarationFileContentChangedTime :: "Date option"
  newestOutputFileTime :: "Date option"
  newestOutputFileName :: "string option"
  oldestOutputFileName :: string

text \<open>
  \<open>UpToDateStatus\<close>, one constructor per \<open>UpToDateStatusType\<close>. The second field of
  \<open>OutOfDateWithSelf\<close> is \<open>newerInputFileName\<close>, which the evaluator fills from a
  variable initialised with \<open>undefined!\<close>, hence an option.
\<close>

datatype UpToDateStatus =
    Unbuildable string
  | UpToDate UpToDateFields
  | UpToDateWithUpstreamTypes UpToDateFields
  | OutOfDateWithPrepend string string
  | OutputMissing string
  | OutOfDateWithSelf string "string option"
  | OutOfDateWithUpstream string string
  | UpstreamOutOfDate string
  | UpstreamBlocked string
  | ComputingUpstream
  | TsVersionOutputOfDate string
  | ContainerOnly

subsection \<open>Build result flags and exit statuses\<close>

text \<open>\<open>enum BuildResultFlags\<close>: bit flags, combined with the 32-bit operators of JavaScript.\<close>

type_synonym BuildResultFlags = "32 word"

definition BuildResultFlags_None :: BuildResultFlags where
  "BuildResultFlags_None = 0"

definition BuildResultFlags_Success :: BuildResultFlags where
  "BuildResultFlags_Success = push_bit 0 1"

definition BuildResultFlags_DeclarationOutputUnchanged :: BuildResultFlags where
  "BuildResultFlags_DeclarationOutputUnchanged = push_bit 1 1"

definition BuildResultFlags_ConfigFileErrors :: BuildResultFlags where
  "BuildResultFlags_ConfigFileErrors = push_bit 2 1"

definition BuildResultFlags_SyntaxErrors :: BuildResultFlags where
  "BuildResultFlags_SyntaxErrors = push_bit 3 1"

definition BuildResultFlags_TypeErrors :: BuildResultFlags where
  "BuildResultFlags_TypeErrors = push_bit 4 1"

definition BuildResultFlags_DeclarationEmitErrors :: BuildResultFlags where
  "BuildResultFlags_DeclarationEmitErrors = push_bit 5 1"

definition BuildResultFlags_EmitErrors :: BuildResultFlags where
  "BuildResultFlags_EmitErrors = push_bit 6 1"

definition BuildResultFlags_AnyErrors :: BuildResultFlags where
  "BuildResultFlags_AnyErrors =
     BuildResultFlags_ConfigFileErrors OR BuildResultFlags_SyntaxErrors OR
     BuildResultFlags_TypeErrors OR BuildResultFlags_DeclarationEmitErrors OR
     BuildResultFlags_EmitErrors"

datatype ExitStatus =
    ExitStatus_Success
  | ExitStatus_DiagnosticsPresent_OutputsSkipped
  | ExitStatus_DiagnosticsPresent_OutputsGenerated
  | ExitStatus_InvalidProject_OutputsSkipped

subsection \<open>Reload levels\<close>

text \<open>
  Modelled from the spec: the declaration of \<open>enum ConfigFileProgramReloadLevel\<close> is not
  in tsbuild.ts; the spec orders its members None < Partial < Full, which is the numeric
  order \<open>addProjToQueue\<close> compares with \<open><\<close>.
\<close>

datatype ConfigFileProgramReloadLevel =
    ReloadLevel_None
  | ReloadLevel_Partial
  | ReloadLevel_Full

fun levelValue :: "ConfigFileProgramReloadLevel \<Rightarrow> nat" where
  "levelValue ReloadLevel_None = 0"
| "levelValue ReloadLevel_Partial = 1"
| "levelValue ReloadLevel_Full = 2"

subsection \<open>Parsed configuration files\<close>

record ProjectReference =
  path :: string
  prepend :: bool
  circular :: bool

text \<open>
  The compiler options the builder itself reads: \<open>composite\<close>, \<open>configFilePath\<close>,
  \<open>listEmittedFiles\<close> and \<open>configFile.extendedSourceFiles\<close> (empty when absent).
\<close>

record CompilerOptions =
  composite :: bool
  configFilePath :: string
  extendedSourceFiles :: "string list"
  listEmittedFiles :: bool

text \<open>\<open>projectReferences\<close> is optional in the source, and an empty array is not absent.\<close>

record ParsedCommandLine =
  options :: CompilerOptions
  fileNames :: "string list"
  projectReferences :: "ProjectReference list option"
  errors :: "Diagnostic list"

text \<open>\<open>ConfigFileCacheEntry = ParsedCommandLine | Diagnostic\<close>; \<open>Inl\<close> is the diagnostic.\<close>

type_synonym ConfigFileCacheEntry = "Diagnostic + ParsedCommandLine"

subsection \<open>The program builder's results\<close>

record OutputFile =
  name :: string
  fileText :: string
  writeByteOrderMark :: bool

text \<open>
  What \<open>buildSingleProject\<close> asks of the program \<open>host.createProgram\<close> returns: the
  diagnostics of its first stage (config file parsing, options, global, syntactic), the
  semantic diagnostics, the declaration diagnostics reported during emit, and the files
  the emitter hands to the write callback.
\<close>

record Program =
  syntaxDiagnostics :: "Diagnostic list"
  semanticDiagnostics :: "Diagnostic list"
  declDiagnostics :: "Diagnostic list"
  outputFiles :: "OutputFile list"

subsection \<open>The host\<close>

text \<open>The messages of \<open>Diagnostics\<close> that tsbuild.ts reports through \<open>reportStatus\<close>.\<close>

datatype DiagnosticMessage =
    Project_references_may_not_form_a_circular_graph_Cycle_detected_Colon_0
  | Projects_in_this_build_Colon_0
  | Project_0_is_up_to_date
  | Skipping_build_of_project_0_because_its_dependency_1_has_errors
  | A_non_dry_build_would_build_project_0
  | Building_project_0
  | A_non_dry_build_would_update_output_of_project_0
  | Updating_output_of_project_0
  | Cannot_update_output_of_project_0_because_there_was_error_reading_file_1
  | Updating_unchanged_output_timestamps_of_project_0
  | A_non_dry_build_would_update_timestamps_for_output_of_project_0
  | Updating_output_timestamps_of_project_0
  | A_non_dry_build_would_delete_the_following_files_Colon_0

text \<open>
  Calls that change the file system, in the order they are made, and calls that report.
  \<open>ReportProjectStatus\<close> stands for the status line \<open>reportUpToDateStatus\<close> formats.
\<close>

datatype HostWrite =
    WriteFile string string
  | SetModifiedTime string Date
  | DeleteFile string

datatype HostReport =
    ReportStatus DiagnosticMessage "string list"
  | ReportDiagnostic Diagnostic
  | ReportProjectStatus string UpToDateStatus
  | ReportErrorSummary nat
  | TraceEmittedFile string

text \<open>
  Everything tsbuild.ts calls but does not define is a field of the host: path
  canonicalisation, the configuration parser, the helpers that enumerate a project's
  outputs, the file system (which reads a world \<open>'w\<close> and answers a write with the new
  world), the clock, and the program builder.
\<close>

record 'w Host =
  toPath :: "string \<Rightarrow> ResolvedConfigFilePath"
  resolveProjectName :: "string \<Rightarrow> ResolvedConfigFileName"
  resolveProjectReferencePath :: "ProjectReference \<Rightarrow> ResolvedConfigFileName"
  getParsedCommandLineOfConfigFile :: "ResolvedConfigFileName \<Rightarrow> ConfigFileCacheEntry"
  getFileNamesFromConfigSpecs :: "'w \<Rightarrow> ParsedCommandLine \<Rightarrow> string list \<times> Diagnostic list"
  canJsonReportNoInutFiles :: "ParsedCommandLine \<Rightarrow> bool"
  getAllProjectOutputs :: "ParsedCommandLine \<Rightarrow> string list"
  getFirstProjectOutput :: "ParsedCommandLine \<Rightarrow> string"
  getOutputPathForBuildInfo :: "CompilerOptions \<Rightarrow> string option"
  isIncrementalCompilation :: "CompilerOptions \<Rightarrow> bool"
  isDeclarationFile :: "string \<Rightarrow> bool"
  getBuildInfoVersion :: "string \<Rightarrow> string"
  version :: string
  getErrorCountForSummary :: "Diagnostic list \<Rightarrow> nat"
  fileExists :: "'w \<Rightarrow> string \<Rightarrow> bool"
  getModifiedTime :: "'w \<Rightarrow> string \<Rightarrow> Date option"
  readFile :: "'w \<Rightarrow> string \<Rightarrow> string option"
  writeFile :: "string \<Rightarrow> string \<Rightarrow> 'w \<Rightarrow> Diagnostic option \<times> 'w"
  setModifiedTime :: "string \<Rightarrow> Date \<Rightarrow> 'w \<Rightarrow> 'w"
  deleteFile :: "string \<Rightarrow> 'w \<Rightarrow> 'w"
  now :: "'w \<Rightarrow> Date"
  missingFileModifiedTime :: Date
  createProgram :: "'w \<Rightarrow> ParsedCommandLine \<Rightarrow> Program"
  emitUsingBuildInfo :: "'w \<Rightarrow> ParsedCommandLine \<Rightarrow> string + OutputFile list"
  hasReportErrorSummary :: bool
  hasTrace :: bool
  relName :: "string \<Rightarrow> string"

subsection \<open>The state of a solution builder\<close>

record BuildOptions =
  dry :: bool
  force :: bool
  verbose :: bool

text \<open>
  \<open>SolutionBuilderState\<close>. The maps that the source only reads and writes by key are
  partial functions; \<open>projectPendingBuild\<close> and \<open>diagnostics\<close>, whose size or entries the
  source also uses, are association lists in insertion order, as a JavaScript \<open>Map\<close> is.
  The memo \<open>resolvedConfigFilePaths\<close> of the pure \<open>toPath\<close> is not kept, and neither are
  the watchers, the module resolution cache and the retained builder programs, which no
  decision of the build engine reads. \<open>world\<close>, \<open>hostWrites\<close> and \<open>hostReports\<close> are the
  host's side: the file system and the calls made so far.
\<close>

record 'w SolutionBuilderState =
  buildOptions :: BuildOptions
  rootNames :: "string list"
  configFileCache :: "ResolvedConfigFilePath \<rightharpoonup> ConfigFileCacheEntry"
  projectStatus :: "ResolvedConfigFilePath \<rightharpoonup> UpToDateStatus"
  buildInfoChecked :: "ResolvedConfigFilePath set"
  diagnostics :: "(ResolvedConfigFilePath \<times> Diagnostic list) list"
  projectPendingBuild :: "(ResolvedConfigFilePath \<times> ConfigFileProgramReloadLevel) list"
  projectErrorsReported :: "ResolvedConfigFilePath set"
  buildOrder :: "ResolvedConfigFileName list option"
  allProjectBuildPending :: bool
  needsSummary :: bool
  watchAllProjectsPending :: bool
  watch :: bool
  world :: 'w
  hostWrites :: "HostWrite list"
  hostReports :: "HostReport list"

text \<open>\<open>createSolutionBuilderState\<close>: the state a new builder starts from.\<close>

definition createSolutionBuilderState ::
  "bool \<Rightarrow> string list \<Rightarrow> BuildOptions \<Rightarrow> 'w \<Rightarrow> 'w SolutionBuilderState" where
  "createSolutionBuilderState watching roots opts w =
     \<lparr>buildOptions = opts,
      rootNames = roots,
      configFileCache = Map.empty,
      projectStatus = Map.empty,
      buildInfoChecked = {},
      diagnostics = [],
      projectPendingBuild = [],
      projectErrorsReported = {},
      buildOrder = None,
      allProjectBuildPending = True,
      needsSummary = True,
      watchAllProjectsPending = watching,
      watch = watching,
      world = w,
      hostWrites = [],
      hostReports = []\<rparr>"

section \<open>Reporting\<close>

definition reportStatus ::
  "DiagnosticMessage \<Rightarrow> string list \<Rightarrow> 'w SolutionBuilderState \<Rightarrow> 'w SolutionBuilderState" where
  "reportStatus message args st =
     st\<lparr>hostReports := hostReports st @ [ReportStatus message args]\<rparr>"

definition reportErrors ::
  "Diagnostic list \<Rightarrow> 'w SolutionBuilderState \<Rightarrow> 'w SolutionBuilderState" where
  "reportErrors errs st = st\<lparr>hostReports := hostReports st @ map ReportDiagnostic errs\<rparr>"

definition reportAndStoreErrors ::
  "ResolvedConfigFilePath \<Rightarrow> Diagnostic list \<Rightarrow> 'w SolutionBuilderState \<Rightarrow> 'w SolutionBuilderState" where
  "reportAndStoreErrors proj errs st =
     (let st1 = reportErrors errs st;
          st2 = st1\<lparr>projectErrorsReported := insert proj (projectErrorsReported st1)\<rparr>
      in if errs \<noteq> [] then st2\<lparr>diagnostics := AList.update proj errs (diagnostics st2)\<rparr>
         else st2)"

section \<open>The configuration cache\<close>

text \<open>
  \<open>parseConfigFile\<close>: a cached entry answers; otherwise the host's parser runs and its
  result, the parsed configuration or the diagnostic, is cached under the path.
\<close>

definition parseConfigFile ::
  "'w Host \<Rightarrow> ResolvedConfigFileName \<Rightarrow> ResolvedConfigFilePath \<Rightarrow> 'w SolutionBuilderState
     \<Rightarrow> ParsedCommandLine option \<times> 'w SolutionBuilderState" where
  "parseConfigFile h configFileName cfgPath st =
     (case configFileCache st cfgPath of
        Some (Inr parsed) \<Rightarrow> (Some parsed, st)
      | Some (Inl d) \<Rightarrow> (None, st)
      | None \<Rightarrow>
          (let entry = getParsedCommandLineOfConfigFile h configFileName;
               st1 = st\<lparr>configFileCache := (configFileCache st)(cfgPath \<mapsto> entry)\<rparr>
           in (case entry of Inr parsed \<Rightarrow> (Some parsed, st1) | Inl d \<Rightarrow> (None, st1))))"

text \<open>
  \<open>reportParseConfigFileDiagnostic\<close> reports the cached entry as the diagnostic it is
  (the source casts it); a parsed entry cannot be there when the parse has just failed.
\<close>

definition reportParseConfigFileDiagnostic ::
  "ResolvedConfigFilePath \<Rightarrow> 'w SolutionBuilderState \<Rightarrow> 'w SolutionBuilderState" where
  "reportParseConfigFileDiagnostic proj st =
     reportAndStoreErrors proj
       [case configFileCache st proj of Some (Inl d) \<Rightarrow> d | _ \<Rightarrow> []] st"

section \<open>The pending-build queue\<close>

definition clearProjectStatus ::
  "ResolvedConfigFilePath \<Rightarrow> 'w SolutionBuilderState \<Rightarrow> 'w SolutionBuilderState" where
  "clearProjectStatus resolved st =
     st\<lparr>projectStatus := (projectStatus st)(resolved := None),
        diagnostics := AList.delete resolved (diagnostics st)\<rparr>"

definition addProjToQueue ::
  "ResolvedConfigFilePath \<Rightarrow> ConfigFileProgramReloadLevel \<Rightarrow> 'w SolutionBuilderState
     \<Rightarrow> 'w SolutionBuilderState" where
  "addProjToQueue proj reloadLevel st =
     (case map_of (projectPendingBuild st) proj of
        None \<Rightarrow> st\<lparr>projectPendingBuild := AList.update proj reloadLevel (projectPendingBuild st)\<rparr>
      | Some v \<Rightarrow>
          if levelValue v < levelValue reloadLevel
          then st\<lparr>projectPendingBuild := AList.update proj reloadLevel (projectPendingBuild st)\<rparr>
          else st)"

text \<open>A sequence of enqueue operations, oldest first.\<close>

definition addProjsToQueue ::
  "(ResolvedConfigFilePath \<times> ConfigFileProgramReloadLevel) list \<Rightarrow> 'w SolutionBuilderState
     \<Rightarrow> 'w SolutionBuilderState" where
  "addProjsToQueue reqs st = fold (\<lambda>(proj, reloadLevel). addProjToQueue proj reloadLevel) reqs st"

section \<open>The graph builder\<close>

text \<open>
  A loop whose body may run out of fuel: \<open>for (const x of xs) body(x)\<close>, threading the
  state; \<open>None\<close> once the body has returned \<open>None\<close>.
\<close>

fun forEachOption :: "('a \<Rightarrow> 's \<Rightarrow> 's option) \<Rightarrow> 'a list \<Rightarrow> 's \<Rightarrow> 's option" where
  "forEachOption body [] s = Some s"
| "forEachOption body (x # xs) s =
     (case body x s of None \<Rightarrow> None | Some s1 \<Rightarrow> forEachOption body xs s1)"

text \<open>\<open>Array.prototype.join\<close>.\<close>

fun joinWith :: "string \<Rightarrow> string list \<Rightarrow> string" where
  "joinWith sep [] = []"
| "joinWith sep [x] = x"
| "joinWith sep (x # y # ys) = x @ sep @ joinWith sep (y # ys)"

definition crlf :: string where
  "crlf = [CHR 0x0D, CHR 0x0A]"

text \<open>
  The variables \<open>createBuildOrder\<close> declares and its inner function \<open>visit\<close> closes over.
  \<open>buildOrderAcc\<close> is the local \<open>buildOrder\<close>: undefined until the first push and read as
  the empty array at the end, so the list of what has been pushed.
\<close>

record BuildOrderLocals =
  temporaryMarks :: "ResolvedConfigFilePath set"
  permanentMarks :: "ResolvedConfigFilePath set"
  circularityReportStack :: "string list"
  buildOrderAcc :: "ResolvedConfigFileName list"

text \<open>
  \<open>visit\<close>. The source recurses without a bound; here the first argument bounds the depth
  of the recursion, and \<open>None\<close> means the bound was reached.
\<close>

fun visit ::
  "nat \<Rightarrow> 'w Host \<Rightarrow> ResolvedConfigFileName \<Rightarrow> bool
     \<Rightarrow> BuildOrderLocals \<times> 'w SolutionBuilderState
     \<Rightarrow> (BuildOrderLocals \<times> 'w SolutionBuilderState) option" where
  "visit 0 h configFileName inCircularContext s = None"
| "visit (Suc fuel) h configFileName inCircularContext (l, st) =
     (let projPath = toPath h configFileName in
      if projPath \<in> permanentMarks l then Some (l, st)
      else if projPath \<in> temporaryMarks l then
        (if \<not> inCircularContext
         then Some (l, reportStatus
                Project_references_may_not_form_a_circular_graph_Cycle_detected_Colon_0
                [joinWith crlf (circularityReportStack l)] st)
         else Some (l, st))
      else
        (let l1 = l\<lparr>temporaryMarks := insert projPath (temporaryMarks l),
                     circularityReportStack := circularityReportStack l @ [configFileName]\<rparr>;
             (parsed, st1) = parseConfigFile h configFileName projPath st
         in case (case parsed of
                    None \<Rightarrow> Some (l1, st1)
                  | Some cfg \<Rightarrow>
                      (case projectReferences cfg of
                         None \<Rightarrow> Some (l1, st1)
                       | Some refs \<Rightarrow>
                           forEachOption
                             (\<lambda>ref s. visit fuel h (resolveProjectName h (path ref))
                                        (inCircularContext \<or> circular ref) s)
                             refs (l1, st1))) of
              None \<Rightarrow> None
            | Some (l2, st2) \<Rightarrow>
                Some (l2\<lparr>circularityReportStack := butlast (circularityReportStack l2),
                         permanentMarks := insert projPath (permanentMarks l2),
                         buildOrderAcc := buildOrderAcc l2 @ [configFileName]\<rparr>, st2)))"

definition initialLocals :: BuildOrderLocals where
  "initialLocals =
     \<lparr>temporaryMarks = {}, permanentMarks = {}, circularityReportStack = [],
      buildOrderAcc = []\<rparr>"

definition createBuildOrder ::
  "nat \<Rightarrow> 'w Host \<Rightarrow> ResolvedConfigFileName list \<Rightarrow> 'w SolutionBuilderState
     \<Rightarrow> (ResolvedConfigFileName list \<times> 'w SolutionBuilderState) option" where
  "createBuildOrder fuel h roots st =
     (case forEachOption (\<lambda>root s. visit fuel h root False s) roots (initialLocals, st) of
        None \<Rightarrow> None
      | Some (l, st1) \<Rightarrow> Some (buildOrderAcc l, st1))"

definition getBuildOrder ::
  "nat \<Rightarrow> 'w Host \<Rightarrow> 'w SolutionBuilderState
     \<Rightarrow> (ResolvedConfigFileName list \<times> 'w SolutionBuilderState) option" where
  "getBuildOrder fuel h st =
     (case buildOrder st of
        Some order \<Rightarrow> Some (order, st)
      | None \<Rightarrow>
          (case createBuildOrder fuel h (map (resolveProjectName h) (rootNames st)) st of
             None \<Rightarrow> None
           | Some (order, st1) \<Rightarrow> Some (order, st1\<lparr>buildOrder := Some order\<rparr>)))"

text \<open>
  \<open>getBuildOrderFor\<close>. \<open>project && resolveProjectName(state, project)\<close> is falsy for an
  absent and for an empty name, and so is an empty resolved name; the inner \<open>None\<close> of
  the result is the \<open>undefined\<close> returned for a project that is not in the build order.
\<close>

definition getBuildOrderFor ::
  "nat \<Rightarrow> 'w Host \<Rightarrow> string option \<Rightarrow> 'w SolutionBuilderState
     \<Rightarrow> (ResolvedConfigFileName list option \<times> 'w SolutionBuilderState) option" where
  "getBuildOrderFor fuel h project st =
     (let resolvedProject =
            (case project of
               None \<Rightarrow> None
             | Some p \<Rightarrow>
                 if p = [] \<or> resolveProjectName h p = [] then None
                 else Some (resolveProjectName h p))
      in case resolvedProject of
           Some rp \<Rightarrow>
             (case getBuildOrder fuel h st of
                None \<Rightarrow> None
              | Some (order, st1) \<Rightarrow>
                  if \<not> list_ex (\<lambda>configFileName. toPath h configFileName = toPath h rp) order
                  then Some (None, st1)
                  else (case createBuildOrder fuel h [rp] st1 of
                          None \<Rightarrow> None
                        | Some (order2, st2) \<Rightarrow> Some (Some order2, st2)))
         | None \<Rightarrow>
             (case getBuildOrder fuel h st of
                None \<Rightarrow> None
              | Some (order, st1) \<Rightarrow> Some (Some order, st1)))"

section \<open>The up-to-date evaluator\<close>

text \<open>\<open>host.getModifiedTime(file) || missingFileModifiedTime\<close>.\<close>

definition modifiedTimeOf :: "'w Host \<Rightarrow> 'w \<Rightarrow> string \<Rightarrow> Date" where
  "modifiedTimeOf h w file =
     (case getModifiedTime h w file of Some t \<Rightarrow> t | None \<Rightarrow> missingFileModifiedTime h)"

text \<open>
  The loop over the input files: \<open>Inl\<close> the first input that does not exist, otherwise
  the name and time of the newest input (the name stays undefined while no input is newer
  than \<open>minimumDate\<close>).
\<close>

fun newestInput ::
  "'w Host \<Rightarrow> 'w \<Rightarrow> string list \<Rightarrow> string option \<times> Date \<Rightarrow> string + (string option \<times> Date)" where
  "newestInput h w [] acc = Inr acc"
| "newestInput h w (inputFile # rest) (inName, inTime) =
     (if \<not> fileExists h w inputFile then Inl inputFile
      else let inputTime = modifiedTimeOf h w inputFile
           in if inputTime > inTime then newestInput h w rest (Some inputFile, inputTime)
              else newestInput h w rest (inName, inTime))"

text \<open>The variables of the loop over the expected outputs.\<close>

record OutputScan =
  oldestOutputName :: string
  oldestOutputTime :: Date
  newestOutputName :: string
  newestOutputTime :: Date
  missingOutputFileName :: "string option"
  newestDeclarationChangedTime :: Date
  isOutOfDateWithInputs :: bool

definition initialScan :: OutputScan where
  "initialScan =
     \<lparr>oldestOutputName = ''(none)'', oldestOutputTime = maximumDate,
      newestOutputName = ''(none)'', newestOutputTime = minimumDate,
      missingOutputFileName = None, newestDeclarationChangedTime = minimumDate,
      isOutOfDateWithInputs = False\<rparr>"

text \<open>
  The loop over the outputs stops (\<open>break\<close>) at the first output that is missing and at
  the first that is older than the newest input.
\<close>

fun outputsLoop :: "'w Host \<Rightarrow> 'w \<Rightarrow> Date \<Rightarrow> string list \<Rightarrow> OutputScan \<Rightarrow> OutputScan" where
  "outputsLoop h w inTime [] sc = sc"
| "outputsLoop h w inTime (output # rest) sc =
     (if \<not> fileExists h w output then sc\<lparr>missingOutputFileName := Some output\<rparr>
      else
        let outputTime = modifiedTimeOf h w output;
            sc1 = (if outputTime < oldestOutputTime sc
                   then sc\<lparr>oldestOutputTime := outputTime, oldestOutputName := output\<rparr>
                   else sc)
        in if outputTime < inTime then sc1\<lparr>isOutOfDateWithInputs := True\<rparr>
           else
             let sc2 = (if outputTime > newestOutputTime sc1
                        then sc1\<lparr>newestOutputTime := outputTime, newestOutputName := output\<rparr>
                        else sc1);
                 sc3 = (if isDeclarationFile h output
                        then sc2\<lparr>newestDeclarationChangedTime :=
                                   newer (newestDeclarationChangedTime sc2)
                                     (modifiedTimeOf h w output)\<rparr>
                        else sc2)
             in outputsLoop h w inTime rest sc3)"

text \<open>The variables of the loop over the project references.\<close>

record UpstreamScan =
  pseudoUpToDate :: bool
  usesPrepend :: bool
  upstreamChangedProject :: "string option"

definition initialUpstream :: UpstreamScan where
  "initialUpstream =
     \<lparr>pseudoUpToDate = False, usesPrepend = False, upstreamChangedProject = None\<rparr>"

text \<open>
  The evaluator the worker calls for a reference: in the source \<open>getUpToDateStatus\<close>
  itself; here the same function with one unit of fuel less.
\<close>

type_synonym 'w Evaluator =
  "ParsedCommandLine option \<Rightarrow> ResolvedConfigFilePath \<Rightarrow> 'w SolutionBuilderState
     \<Rightarrow> (UpToDateStatus \<times> 'w SolutionBuilderState) option"

text \<open>
  \<open>getUpToDateStatus(state, parseConfigFile(state, resolvedRef, resolvedRefPath),
  resolvedRefPath)\<close> for one reference.
\<close>

definition evaluateReference ::
  "'w Evaluator \<Rightarrow> 'w Host \<Rightarrow> ProjectReference \<Rightarrow> 'w SolutionBuilderState
     \<Rightarrow> (UpToDateStatus \<times> 'w SolutionBuilderState) option" where
  "evaluateReference ev h ref st =
     (let resolvedRef = resolveProjectReferencePath h ref;
          resolvedRefPath = toPath h resolvedRef;
          (parsed, st1) = parseConfigFile h resolvedRef resolvedRefPath st
      in ev parsed resolvedRefPath st1)"

text \<open>
  The loop over the references: \<open>Inl\<close> the status it returns from the worker with,
  \<open>Inr\<close> its variables when it runs to the end. \<open>!missingOutputFileName\<close> holds for an
  undefined and for an empty name.
\<close>

fun upstreamLoop ::
  "'w Evaluator \<Rightarrow> 'w Host \<Rightarrow> OutputScan \<Rightarrow> ProjectReference list \<Rightarrow> UpstreamScan
     \<Rightarrow> 'w SolutionBuilderState
     \<Rightarrow> ((UpToDateStatus + UpstreamScan) \<times> 'w SolutionBuilderState) option" where
  "upstreamLoop ev h sc [] us st = Some (Inr us, st)"
| "upstreamLoop ev h sc (ref # refs) us st =
     (let us1 = us\<lparr>usesPrepend := usesPrepend us \<or> prepend ref\<rparr>
      in case evaluateReference ev h ref st of
           None \<Rightarrow> None
         | Some (refStatus, st1) \<Rightarrow>
             (case refStatus of
                ComputingUpstream \<Rightarrow> upstreamLoop ev h sc refs us1 st1
              | Unbuildable reason \<Rightarrow> Some (Inl (UpstreamBlocked (path ref)), st1)
              | UpToDate info \<Rightarrow>
                  if missingOutputFileName sc = None \<or> missingOutputFileName sc = Some []
                  then
                    if (case newestInputFileTime info of
                          Some t \<Rightarrow> t \<le> oldestOutputTime sc | None \<Rightarrow> False)
                    then upstreamLoop ev h sc refs us1 st1
                    else if (case newestDeclarationFileContentChangedTime info of
                               Some t \<Rightarrow> t \<le> oldestOutputTime sc | None \<Rightarrow> False)
                    then upstreamLoop ev h sc refs
                           (us1\<lparr>pseudoUpToDate := True,
                                upstreamChangedProject := Some (path ref)\<rparr>) st1
                    else Some (Inl (OutOfDateWithUpstream (oldestOutputName sc) (path ref)), st1)
                  else upstreamLoop ev h sc refs us1 st1
              | other \<Rightarrow> Some (Inl (UpstreamOutOfDate (path ref)), st1)))"

definition checkConfigFileUpToDateStatus ::
  "'w Host \<Rightarrow> 'w \<Rightarrow> string \<Rightarrow> Date \<Rightarrow> string \<Rightarrow> UpToDateStatus option" where
  "checkConfigFileUpToDateStatus h w configFile oldestTime oldestName =
     (let tsconfigTime = modifiedTimeOf h w configFile
      in if oldestTime < tsconfigTime
         then Some (OutOfDateWithSelf oldestName (Some configFile))
         else None)"

text \<open>\<open>forEach(array, callback)\<close>: the first result that is not undefined.\<close>

fun firstDefined :: "('a \<Rightarrow> 'b option) \<Rightarrow> 'a list \<Rightarrow> 'b option" where
  "firstDefined f [] = None"
| "firstDefined f (x # xs) = (case f x of Some y \<Rightarrow> Some y | None \<Rightarrow> firstDefined f xs)"

text \<open>
  The worker after the loop over the references: the checks that no upstream status
  has overridden. The build info is read once per project (\<open>buildInfoChecked\<close>).
\<close>

definition statusAfterUpstream ::
  "'w Host \<Rightarrow> ParsedCommandLine \<Rightarrow> ResolvedConfigFilePath \<Rightarrow> string option \<Rightarrow> Date
     \<Rightarrow> OutputScan \<Rightarrow> UpstreamScan \<Rightarrow> 'w SolutionBuilderState
     \<Rightarrow> UpToDateStatus \<times> 'w SolutionBuilderState" where
  "statusAfterUpstream h project resolvedPath inName inTime sc us st =
     (case missingOutputFileName sc of
        Some missing \<Rightarrow> (OutputMissing missing, st)
      | None \<Rightarrow>
          if isOutOfDateWithInputs sc
          then (OutOfDateWithSelf (oldestOutputName sc) inName, st)
          else
            (case checkConfigFileUpToDateStatus h (world st) (configFilePath (options project))
                    (oldestOutputTime sc) (oldestOutputName sc) of
               Some configStatus \<Rightarrow> (configStatus, st)
             | None \<Rightarrow>
                 (case firstDefined
                         (\<lambda>configFile. checkConfigFileUpToDateStatus h (world st) configFile
                                         (oldestOutputTime sc) (oldestOutputName sc))
                         (extendedSourceFiles (options project)) of
                    Some extendedConfigStatus \<Rightarrow> (extendedConfigStatus, st)
                  | None \<Rightarrow>
                      (let checked = (resolvedPath \<in> buildInfoChecked st);
                           st1 = st\<lparr>buildInfoChecked := insert resolvedPath (buildInfoChecked st)\<rparr>;
                           versionStatus =
                             (if checked then None
                              else case getOutputPathForBuildInfo h (options project) of
                                     None \<Rightarrow> None
                                   | Some buildInfoPath \<Rightarrow>
                                       if buildInfoPath = [] then None
                                       else (case readFile h (world st) buildInfoPath of
                                               None \<Rightarrow> None
                                             | Some val \<Rightarrow>
                                                 if val \<noteq> [] \<and> getBuildInfoVersion h val \<noteq> version h
                                                 then Some (TsVersionOutputOfDate (getBuildInfoVersion h val))
                                                 else None))
                       in case versionStatus of
                            Some vs \<Rightarrow> (vs, st1)
                          | None \<Rightarrow>
                              if usesPrepend us \<and> pseudoUpToDate us
                              then (OutOfDateWithPrepend (oldestOutputName sc)
                                      (case upstreamChangedProject us of
                                         Some n \<Rightarrow> n | None \<Rightarrow> []), st1)
                              else
                                (let info =
                                       \<lparr>newestInputFileTime = Some inTime,
                                        newestInputFileName = inName,
                                        newestDeclarationFileContentChangedTime =
                                          Some (newestDeclarationChangedTime sc),
                                        newestOutputFileTime = Some (newestOutputTime sc),
                                        newestOutputFileName = Some (newestOutputName sc),
                                        oldestOutputFileName = oldestOutputName sc\<rparr>
                                 in (if pseudoUpToDate us then UpToDateWithUpstreamTypes info
                                     else UpToDate info, st1))))))"

text \<open>
  \<open>getUpToDateStatusWorker\<close>. Reading a file goes to the host directly: the cache that
  \<open>enableCache\<close> puts in front of the host during a build changes no answer while the files
  stay as they are.
\<close>

definition getUpToDateStatusWorker ::
  "'w Evaluator \<Rightarrow> 'w Host \<Rightarrow> ParsedCommandLine \<Rightarrow> ResolvedConfigFilePath
     \<Rightarrow> 'w SolutionBuilderState \<Rightarrow> (UpToDateStatus \<times> 'w SolutionBuilderState) option" where
  "getUpToDateStatusWorker ev h project resolvedPath st =
     (case newestInput h (world st) (fileNames project) (None, minimumDate) of
        Inl inputFile \<Rightarrow> Some (Unbuildable (inputFile @ '' does not exist''), st)
      | Inr (inName, inTime) \<Rightarrow>
          if fileNames project = [] \<and> \<not> canJsonReportNoInutFiles h project
          then Some (ContainerOnly, st)
          else
            (let outputs = getAllProjectOutputs h project;
                 sc = outputsLoop h (world st) inTime outputs initialScan
             in case (case projectReferences project of
                        None \<Rightarrow> Some (Inr initialUpstream, st)
                      | Some refs \<Rightarrow>
                          upstreamLoop ev h sc refs initialUpstream
                            (st\<lparr>projectStatus :=
                                  (projectStatus st)(resolvedPath \<mapsto> ComputingUpstream)\<rparr>)) of
                  None \<Rightarrow> None
                | Some (Inl status, st1) \<Rightarrow> Some (status, st1)
                | Some (Inr us, st1) \<Rightarrow>
                    Some (statusAfterUpstream h project resolvedPath inName inTime sc us st1)))"

text \<open>
  \<open>getUpToDateStatus\<close>. An undefined project and a cached status need no recursion; the
  worker runs with one unit of fuel less for the references, and \<open>None\<close> means the fuel
  ran out.
\<close>

fun getUpToDateStatus ::
  "nat \<Rightarrow> 'w Host \<Rightarrow> ParsedCommandLine option \<Rightarrow> ResolvedConfigFilePath
     \<Rightarrow> 'w SolutionBuilderState \<Rightarrow> (UpToDateStatus \<times> 'w SolutionBuilderState) option" where
  "getUpToDateStatus fuel h None resolvedPath st =
     Some (Unbuildable ''File deleted mid-build'', st)"
| "getUpToDateStatus 0 h (Some project) resolvedPath st =
     (case projectStatus st resolvedPath of
        Some prior \<Rightarrow> Some (prior, st)
      | None \<Rightarrow> None)"
| "getUpToDateStatus (Suc fuel) h (Some project) resolvedPath st =
     (case projectStatus st resolvedPath of
        Some prior \<Rightarrow> Some (prior, st)
      | None \<Rightarrow>
          (case getUpToDateStatusWorker (\<lambda>parsed refPath s. getUpToDateStatus fuel h parsed refPath s)
                  h project resolvedPath st of
             None \<Rightarrow> None
           | Some (actual, st1) \<Rightarrow>
               Some (actual, st1\<lparr>projectStatus := (projectStatus st1)(resolvedPath \<mapsto> actual)\<rparr>)))"

text \<open>The builder's \<open>getUpToDateStatusOfProject\<close>.\<close>

definition getUpToDateStatusOfProject ::
  "nat \<Rightarrow> 'w Host \<Rightarrow> string \<Rightarrow> 'w SolutionBuilderState
     \<Rightarrow> (UpToDateStatus \<times> 'w SolutionBuilderState) option" where
  "getUpToDateStatusOfProject fuel h project st =
     (let configFileName = resolveProjectName h project;
          cfgPath = toPath h configFileName;
          (parsed, st1) = parseConfigFile h configFileName cfgPath st
      in getUpToDateStatus fuel h parsed cfgPath st1)"

section \<open>The build actions\<close>

text \<open>The calls that change the file system: the host answers with the new world.\<close>

definition hostSetModifiedTime ::
  "'w Host \<Rightarrow> string \<Rightarrow> Date \<Rightarrow> 'w SolutionBuilderState \<Rightarrow> 'w SolutionBuilderState" where
  "hostSetModifiedTime h file t st =
     st\<lparr>world := setModifiedTime h file t (world st),
        hostWrites := hostWrites st @ [SetModifiedTime file t]\<rparr>"

definition hostDeleteFile ::
  "'w Host \<Rightarrow> string \<Rightarrow> 'w SolutionBuilderState \<Rightarrow> 'w SolutionBuilderState" where
  "hostDeleteFile h file st =
     st\<lparr>world := deleteFile h file (world st),
        hostWrites := hostWrites st @ [DeleteFile file]\<rparr>"

text \<open>
  \<open>writeFile(compilerHost, emitterDiagnostics, name, text, writeByteOrderMark)\<close>: the
  write, and the diagnostic of a write that failed.
\<close>

definition hostWriteFile ::
  "'w Host \<Rightarrow> string \<Rightarrow> string \<Rightarrow> 'w SolutionBuilderState
     \<Rightarrow> Diagnostic option \<times> 'w SolutionBuilderState" where
  "hostWriteFile h file txt st =
     (let (failure, w1) = writeFile h file txt (world st)
      in (failure, st\<lparr>world := w1, hostWrites := hostWrites st @ [WriteFile file txt]\<rparr>))"

text \<open>\<open>listEmittedFile\<close>: a line of trace when the host traces and the project asks for it.\<close>

definition listEmittedFile ::
  "'w Host \<Rightarrow> ParsedCommandLine \<Rightarrow> string \<Rightarrow> 'w SolutionBuilderState \<Rightarrow> 'w SolutionBuilderState" where
  "listEmittedFile h proj file st =
     (if hasTrace h \<and> listEmittedFiles (options proj)
      then st\<lparr>hostReports := hostReports st @ [TraceEmittedFile file]\<rparr>
      else st)"

text \<open>
  The loop of \<open>updateOutputTimestampsWorker\<close> over the outputs; \<open>skipOutputs\<close> maps the
  path of an emitted file to its name. The loop carries \<open>priorNewestUpdateTime\<close> and
  \<open>reportVerbose\<close>.
\<close>

fun touchOutputs ::
  "'w Host \<Rightarrow> ParsedCommandLine \<Rightarrow> DiagnosticMessage \<Rightarrow> (string \<times> string) list option \<Rightarrow> Date
     \<Rightarrow> string list \<Rightarrow> Date \<times> bool \<times> 'w SolutionBuilderState
     \<Rightarrow> Date \<times> bool \<times> 'w SolutionBuilderState" where
  "touchOutputs h proj verboseMessage skipOutputs nowTime [] acc = acc"
| "touchOutputs h proj verboseMessage skipOutputs nowTime (file # rest) (prior, reportVerbose, st) =
     (if (case skipOutputs of None \<Rightarrow> False | Some skip \<Rightarrow> map_of skip (toPath h file) \<noteq> None)
      then touchOutputs h proj verboseMessage skipOutputs nowTime rest (prior, reportVerbose, st)
      else
        let st1 = (if reportVerbose
                   then reportStatus verboseMessage [configFilePath (options proj)] st
                   else st);
            prior1 = (if isDeclarationFile h file
                      then newer prior (modifiedTimeOf h (world st1) file)
                      else prior);
            st2 = hostSetModifiedTime h file nowTime st1;
            st3 = listEmittedFile h proj file st2
        in touchOutputs h proj verboseMessage skipOutputs nowTime rest (prior1, False, st3))"

definition updateOutputTimestampsWorker ::
  "'w Host \<Rightarrow> ParsedCommandLine \<Rightarrow> Date \<Rightarrow> DiagnosticMessage \<Rightarrow> (string \<times> string) list option
     \<Rightarrow> 'w SolutionBuilderState \<Rightarrow> Date \<times> 'w SolutionBuilderState" where
  "updateOutputTimestampsWorker h proj priorNewestUpdateTime verboseMessage skipOutputs st =
     (let outputs = getAllProjectOutputs h proj
      in if (case skipOutputs of None \<Rightarrow> True | Some skip \<Rightarrow> length outputs \<noteq> length skip)
         then (case touchOutputs h proj verboseMessage skipOutputs (now h (world st)) outputs
                      (priorNewestUpdateTime, verbose (buildOptions st), st) of
                 (prior, reportVerbose, st1) \<Rightarrow> (prior, st1))
         else (priorNewestUpdateTime, st))"

text \<open>The status a finished build action stores: UpToDate with two of its fields set.\<close>

definition builtStatus :: "Date \<Rightarrow> string \<Rightarrow> UpToDateStatus" where
  "builtStatus declChanged oldestName =
     UpToDate \<lparr>newestInputFileTime = None, newestInputFileName = None,
               newestDeclarationFileContentChangedTime = Some declChanged,
               newestOutputFileTime = None, newestOutputFileName = None,
               oldestOutputFileName = oldestName\<rparr>"

definition updateOutputTimestamps ::
  "'w Host \<Rightarrow> ParsedCommandLine \<Rightarrow> ResolvedConfigFilePath \<Rightarrow> 'w SolutionBuilderState
     \<Rightarrow> 'w SolutionBuilderState" where
  "updateOutputTimestamps h proj resolvedPath st =
     (if dry (buildOptions st)
      then reportStatus A_non_dry_build_would_update_timestamps_for_output_of_project_0
             [configFilePath (options proj)] st
      else
        (case updateOutputTimestampsWorker h proj minimumDate
                Updating_output_timestamps_of_project_0 None st of
           (priorNewestUpdateTime, st1) \<Rightarrow>
             st1\<lparr>projectStatus := (projectStatus st1)(resolvedPath \<mapsto>
                    builtStatus priorNewestUpdateTime (getFirstProjectOutput h proj))\<rparr>))"

text \<open>
  \<open>buildErrors\<close>. Listing the program's files, \<open>afterProgramCreate\<close> and the reset of
  \<open>projectCompilerOptions\<close> touch nothing that is modelled.
\<close>

definition buildErrors ::
  "ResolvedConfigFilePath \<Rightarrow> Diagnostic list \<Rightarrow> BuildResultFlags \<Rightarrow> string
     \<Rightarrow> 'w SolutionBuilderState \<Rightarrow> BuildResultFlags \<times> 'w SolutionBuilderState" where
  "buildErrors resolvedPath diags errorFlags errorType st =
     (let st1 = reportAndStoreErrors resolvedPath diags st
      in (errorFlags,
          st1\<lparr>projectStatus := (projectStatus st1)(resolvedPath \<mapsto>
                 Unbuildable (errorType @ '' errors''))\<rparr>))"

text \<open>The variables of the loop that writes the emitted files.\<close>

record EmitScan =
  resultFlags :: BuildResultFlags
  newestDeclarationFileContentChanged :: Date
  anyDtsChanged :: bool
  emittedOutputs :: "(string \<times> string) list"
  emitterDiagnostics :: "Diagnostic list"

fun emitFiles ::
  "'w Host \<Rightarrow> OutputFile list \<Rightarrow> EmitScan \<times> 'w SolutionBuilderState
     \<Rightarrow> EmitScan \<times> 'w SolutionBuilderState" where
  "emitFiles h [] acc = acc"
| "emitFiles h (file # rest) (es, st) =
     (let checkDts = (\<not> anyDtsChanged es \<and> isDeclarationFile h (name file));
          unchanged = (fileExists h (world st) (name file) \<and>
                       readFile h (world st) (name file) = Some (fileText file));
          priorChangeTime = (if checkDts \<and> unchanged
                             then getModifiedTime h (world st) (name file)
                             else None);
          es1 = (if checkDts \<and> \<not> unchanged
                 then es\<lparr>resultFlags :=
                           resultFlags es AND NOT BuildResultFlags_DeclarationOutputUnchanged,
                         anyDtsChanged := True\<rparr>
                 else es);
          es2 = es1\<lparr>emittedOutputs :=
                      AList.update (toPath h (name file)) (name file) (emittedOutputs es1)\<rparr>;
          (failure, st1) = hostWriteFile h (name file) (fileText file) st;
          es3 = (case failure of
                   None \<Rightarrow> es2
                 | Some d \<Rightarrow> es2\<lparr>emitterDiagnostics := emitterDiagnostics es2 @ [d]\<rparr>);
          es4 = (case priorChangeTime of
                   None \<Rightarrow> es3
                 | Some t \<Rightarrow>
                     es3\<lparr>newestDeclarationFileContentChanged :=
                           newer t (newestDeclarationFileContentChanged es3)\<rparr>)
      in emitFiles h rest (es4, st1))"

definition initialEmit :: EmitScan where
  "initialEmit =
     \<lparr>resultFlags = BuildResultFlags_DeclarationOutputUnchanged,
      newestDeclarationFileContentChanged = minimumDate,
      anyDtsChanged = False, emittedOutputs = [], emitterDiagnostics = []\<rparr>"

text \<open>\<open>emittedOutputs.forEach(name => listEmittedFile(state, config, name))\<close>.\<close>

definition listEmittedFiles' ::
  "'w Host \<Rightarrow> ParsedCommandLine \<Rightarrow> (string \<times> string) list \<Rightarrow> 'w SolutionBuilderState
     \<Rightarrow> 'w SolutionBuilderState" where
  "listEmittedFiles' h proj emitted st = fold (\<lambda>(p, file). listEmittedFile h proj file) emitted st"

text \<open>
  \<open>buildSingleProject\<close>. The old program handed to \<open>createProgram\<close>, the module resolution
  cache and the cancellation token are the program builder's business and are not
  modelled.
\<close>

definition buildSingleProject ::
  "'w Host \<Rightarrow> ResolvedConfigFileName \<Rightarrow> ResolvedConfigFilePath \<Rightarrow> ParsedCommandLine
     \<Rightarrow> 'w SolutionBuilderState \<Rightarrow> BuildResultFlags \<times> 'w SolutionBuilderState" where
  "buildSingleProject h proj resolvedPath cfg st =
     (if dry (buildOptions st)
      then (BuildResultFlags_Success, reportStatus A_non_dry_build_would_build_project_0 [proj] st)
      else
        let st1 = (if verbose (buildOptions st) then reportStatus Building_project_0 [proj] st
                   else st)
        in if fileNames cfg = []
           then (BuildResultFlags_None, reportAndStoreErrors resolvedPath (errors cfg) st1)
           else
             let program = createProgram h (world st1) cfg
             in if syntaxDiagnostics program \<noteq> []
                then buildErrors resolvedPath (syntaxDiagnostics program)
                       BuildResultFlags_SyntaxErrors ''Syntactic'' st1
                else if semanticDiagnostics program \<noteq> []
                then buildErrors resolvedPath (semanticDiagnostics program)
                       BuildResultFlags_TypeErrors ''Semantic'' st1
                else if declDiagnostics program \<noteq> []
                then buildErrors resolvedPath (declDiagnostics program)
                       BuildResultFlags_DeclarationEmitErrors ''Declaration file'' st1
                else
                  (case emitFiles h (outputFiles program) (initialEmit, st1) of
                     (es, st2) \<Rightarrow>
                       if emitterDiagnostics es \<noteq> []
                       then buildErrors resolvedPath (emitterDiagnostics es)
                              BuildResultFlags_EmitErrors ''Emit'' st2
                       else
                         let st3 = listEmittedFiles' h cfg (emittedOutputs es) st2
                         in (case updateOutputTimestampsWorker h cfg
                                    (newestDeclarationFileContentChanged es)
                                    Updating_unchanged_output_timestamps_of_project_0
                                    (Some (emittedOutputs es)) st3 of
                               (declChanged, st4) \<Rightarrow>
                                 (resultFlags es,
                                  st4\<lparr>diagnostics := AList.delete resolvedPath (diagnostics st4),
                                      projectStatus := (projectStatus st4)(resolvedPath \<mapsto>
                                        builtStatus
                                          (if anyDtsChanged es then maximumDate else declChanged)
                                          (case outputFiles program of
                                             [] \<Rightarrow> getFirstProjectOutput h cfg
                                           | file # fs \<Rightarrow> name file))\<rparr>))))"

text \<open>The loop of \<open>updateBundle\<close> that writes the files.\<close>

fun writeFiles ::
  "'w Host \<Rightarrow> OutputFile list \<Rightarrow> EmitScan \<times> 'w SolutionBuilderState
     \<Rightarrow> EmitScan \<times> 'w SolutionBuilderState" where
  "writeFiles h [] acc = acc"
| "writeFiles h (file # rest) (es, st) =
     (let es1 = es\<lparr>emittedOutputs :=
                     AList.update (toPath h (name file)) (name file) (emittedOutputs es)\<rparr>;
          (failure, st1) = hostWriteFile h (name file) (fileText file) st;
          es2 = (case failure of
                   None \<Rightarrow> es1
                 | Some d \<Rightarrow> es1\<lparr>emitterDiagnostics := emitterDiagnostics es1 @ [d]\<rparr>)
      in writeFiles h rest (es2, st1))"

text \<open>
  \<open>updateBundle\<close>: \<open>Inl\<close> the name of the file that could not be read, \<open>Inr\<close> the build
  result; \<open>None\<close> when \<open>Debug.assert(!!outputFiles.length)\<close> fails, which throws.
\<close>

definition updateBundle ::
  "'w Host \<Rightarrow> ResolvedConfigFileName \<Rightarrow> ResolvedConfigFilePath \<Rightarrow> ParsedCommandLine
     \<Rightarrow> 'w SolutionBuilderState
     \<Rightarrow> ((string + BuildResultFlags) \<times> 'w SolutionBuilderState) option" where
  "updateBundle h proj resolvedPath cfg st =
     (if dry (buildOptions st)
      then Some (Inr BuildResultFlags_Success,
                 reportStatus A_non_dry_build_would_update_output_of_project_0 [proj] st)
      else
        let st1 = (if verbose (buildOptions st)
                   then reportStatus Updating_output_of_project_0 [proj] st
                   else st)
        in case emitUsingBuildInfo h (world st1) cfg of
             Inl unreadable \<Rightarrow>
               Some (Inl unreadable,
                     reportStatus
                       Cannot_update_output_of_project_0_because_there_was_error_reading_file_1
                       [proj, relName h unreadable] st1)
           | Inr [] \<Rightarrow> None
           | Inr (first # others) \<Rightarrow>
               (case writeFiles h (first # others) (initialEmit, st1) of
                  (es, st2) \<Rightarrow>
                    if emitterDiagnostics es \<noteq> []
                    then (case buildErrors resolvedPath (emitterDiagnostics es)
                                 BuildResultFlags_EmitErrors ''Emit'' st2 of
                            (flags, st3) \<Rightarrow> Some (Inr flags, st3))
                    else
                      let st3 = listEmittedFiles' h cfg (emittedOutputs es) st2
                      in (case updateOutputTimestampsWorker h cfg minimumDate
                                 Updating_unchanged_output_timestamps_of_project_0
                                 (Some (emittedOutputs es)) st3 of
                            (declChanged, st4) \<Rightarrow>
                              Some (Inr BuildResultFlags_DeclarationOutputUnchanged,
                                    st4\<lparr>diagnostics := AList.delete resolvedPath (diagnostics st4),
                                        projectStatus := (projectStatus st4)(resolvedPath \<mapsto>
                                          builtStatus declChanged (name first))\<rparr>))))"

section \<open>Downstream propagation\<close>

text \<open>
  The switch of \<open>queueReferencingProjects\<close> on the cached status of a referencing project,
  for the reference \<open>ref\<close> that names the project just built. Setting \<open>status.type\<close> in
  place keeps the fields of the cached status.
\<close>

definition restatusReferencingProject ::
  "'w Host \<Rightarrow> ResolvedConfigFileName \<Rightarrow> ResolvedConfigFilePath \<Rightarrow> BuildResultFlags
     \<Rightarrow> ResolvedConfigFilePath \<Rightarrow> ProjectReference \<Rightarrow> 'w SolutionBuilderState
     \<Rightarrow> 'w SolutionBuilderState" where
  "restatusReferencingProject h proj projPath buildResult nextProjectPath ref st =
     (let unchanged = (buildResult AND BuildResultFlags_DeclarationOutputUnchanged \<noteq> 0);
          setStatus = (\<lambda>s. st\<lparr>projectStatus := (projectStatus st)(nextProjectPath \<mapsto> s)\<rparr>)
      in case projectStatus st nextProjectPath of
           None \<Rightarrow> st
         | Some (UpToDate info) \<Rightarrow>
             if unchanged
             then (if prepend ref
                   then setStatus (OutOfDateWithPrepend (oldestOutputFileName info) proj)
                   else setStatus (UpToDateWithUpstreamTypes info))
             else setStatus (OutOfDateWithUpstream (oldestOutputFileName info) proj)
         | Some (UpToDateWithUpstreamTypes info) \<Rightarrow>
             if \<not> unchanged
             then setStatus (OutOfDateWithUpstream (oldestOutputFileName info) proj)
             else st
         | Some (OutOfDateWithPrepend outOfDateOutputFileName newerProjectName) \<Rightarrow>
             if \<not> unchanged
             then setStatus (OutOfDateWithUpstream outOfDateOutputFileName proj)
             else st
         | Some (UpstreamBlocked upstreamProjectName) \<Rightarrow>
             if toPath h (resolveProjectName h upstreamProjectName) = projPath
             then clearProjectStatus nextProjectPath st
             else st
         | Some other \<Rightarrow> st)"

text \<open>The body of the loop over the projects later in the build order.\<close>

definition queueReferencingProject ::
  "'w Host \<Rightarrow> ResolvedConfigFileName \<Rightarrow> ResolvedConfigFilePath \<Rightarrow> BuildResultFlags
     \<Rightarrow> ResolvedConfigFileName \<Rightarrow> 'w SolutionBuilderState \<Rightarrow> 'w SolutionBuilderState" where
  "queueReferencingProject h proj projPath buildResult nextProject st =
     (let nextProjectPath = toPath h nextProject
      in if map_of (projectPendingBuild st) nextProjectPath \<noteq> None then st
         else
           (case parseConfigFile h nextProject nextProjectPath st of
              (None, st1) \<Rightarrow> st1
            | (Some nextProjectConfig, st1) \<Rightarrow>
                (case projectReferences nextProjectConfig of
                   None \<Rightarrow> st1
                 | Some refs \<Rightarrow>
                     (case find (\<lambda>ref. toPath h (resolveProjectName h (path ref)) = projPath)
                             refs of
                        None \<Rightarrow> st1
                      | Some ref \<Rightarrow>
                          addProjToQueue nextProjectPath ReloadLevel_None
                            (restatusReferencingProject h proj projPath buildResult
                               nextProjectPath ref st1)))))"

definition queueReferencingProjects ::
  "'w Host \<Rightarrow> ResolvedConfigFileName \<Rightarrow> ResolvedConfigFilePath \<Rightarrow> nat \<Rightarrow> ParsedCommandLine
     \<Rightarrow> ResolvedConfigFileName list \<Rightarrow> BuildResultFlags \<Rightarrow> 'w SolutionBuilderState
     \<Rightarrow> 'w SolutionBuilderState" where
  "queueReferencingProjects h proj projPath projectIndex cfg order buildResult st =
     (if buildResult AND BuildResultFlags_AnyErrors \<noteq> 0 then st
      else if \<not> composite (options cfg) then st
      else fold (queueReferencingProject h proj projPath buildResult)
             (drop (projectIndex + 1) order) st)"

section \<open>The invalidated-project factory and the build driver\<close>

datatype InvalidatedProjectKind = Build | UpdateBundle | UpdateOutputFileStamps

text \<open>
  What the three kinds of \<open>InvalidatedProject\<close> close over. A handle is modelled as the
  factory returns it, before \<open>build\<close>, \<open>updateBundle\<close> or \<open>updateOutputFileStatmps\<close> has
  been called on it, which is how the build driver uses it.
\<close>

record InvalidatedProject =
  kind :: InvalidatedProjectKind
  handleProject :: ResolvedConfigFileName
  handleProjectPath :: ResolvedConfigFilePath
  handleProjectIndex :: nat
  handleConfig :: ParsedCommandLine
  handleBuildOrder :: "ResolvedConfigFileName list"

definition deletePending ::
  "ResolvedConfigFilePath \<Rightarrow> 'w SolutionBuilderState \<Rightarrow> 'w SolutionBuilderState" where
  "deletePending projPath st =
     st\<lparr>projectPendingBuild := AList.delete projPath (projectPendingBuild st)\<rparr>"

text \<open>The \<open>build\<close> of a Build handle: the build, then the downstream propagation.\<close>

definition buildAndQueue ::
  "'w Host \<Rightarrow> InvalidatedProject \<Rightarrow> 'w SolutionBuilderState \<Rightarrow> 'w SolutionBuilderState" where
  "buildAndQueue h ip st =
     (case buildSingleProject h (handleProject ip) (handleProjectPath ip) (handleConfig ip) st of
        (buildResult, st1) \<Rightarrow>
          queueReferencingProjects h (handleProject ip) (handleProjectPath ip)
            (handleProjectIndex ip) (handleConfig ip) (handleBuildOrder ip) buildResult st1)"

text \<open>
  \<open>done\<close>: the action of the handle, then the project leaves the queue. A bundle update
  that cannot read its build info becomes a build. \<open>None\<close> when the assertion of
  \<open>updateBundle\<close> fails.
\<close>

definition done' ::
  "'w Host \<Rightarrow> InvalidatedProject \<Rightarrow> 'w SolutionBuilderState \<Rightarrow> 'w SolutionBuilderState option" where
  "done' h ip st =
     (case kind ip of
        UpdateOutputFileStamps \<Rightarrow>
          Some (deletePending (handleProjectPath ip)
                  (updateOutputTimestamps h (handleConfig ip) (handleProjectPath ip) st))
      | Build \<Rightarrow> Some (deletePending (handleProjectPath ip) (buildAndQueue h ip st))
      | UpdateBundle \<Rightarrow>
          (case updateBundle h (handleProject ip) (handleProjectPath ip) (handleConfig ip) st of
             None \<Rightarrow> None
           | Some (Inl unreadable, st1) \<Rightarrow>
               Some (deletePending (handleProjectPath ip) (buildAndQueue h ip st1))
           | Some (Inr buildResult, st1) \<Rightarrow>
               Some (deletePending (handleProjectPath ip)
                       (queueReferencingProjects h (handleProject ip) (handleProjectPath ip)
                          (handleProjectIndex ip) (handleConfig ip) (handleBuildOrder ip)
                          buildResult st1))))"

definition needsBuild ::
  "'w Host \<Rightarrow> UpToDateStatus \<Rightarrow> ParsedCommandLine \<Rightarrow> 'w SolutionBuilderState \<Rightarrow> bool" where
  "needsBuild h status cfg st =
     (if (case status of OutOfDateWithPrepend a b \<Rightarrow> False | other \<Rightarrow> True)
         \<or> force (buildOptions st)
      then True
      else fileNames cfg = [] \<or> errors cfg \<noteq> [] \<or> \<not> isIncrementalCompilation h (options cfg))"

text \<open>
  \<open>verboseReportProjectStatus\<close>: \<open>reportUpToDateStatus\<close> reports every status but an
  UpToDate without \<open>newestInputFileTime\<close>, ContainerOnly and ComputingUpstream.
\<close>

definition verboseReportProjectStatus ::
  "string \<Rightarrow> UpToDateStatus \<Rightarrow> 'w SolutionBuilderState \<Rightarrow> 'w SolutionBuilderState" where
  "verboseReportProjectStatus configFileName status st =
     (if verbose (buildOptions st) \<and>
         (case status of
            UpToDate info \<Rightarrow> newestInputFileTime info \<noteq> None
          | ContainerOnly \<Rightarrow> False
          | ComputingUpstream \<Rightarrow> False
          | other \<Rightarrow> True)
      then st\<lparr>hostReports := hostReports st @ [ReportProjectStatus configFileName status]\<rparr>
      else st)"

text \<open>
  The reload a pending project asks for. A full reload only rewires watchers, which are
  not modelled; a partial reload re-expands the file names, and the source stores them in
  the parsed configuration the cache holds.
\<close>

definition applyReloadLevel ::
  "'w Host \<Rightarrow> ConfigFileProgramReloadLevel \<Rightarrow> ResolvedConfigFilePath \<Rightarrow> ParsedCommandLine
     \<Rightarrow> 'w SolutionBuilderState \<Rightarrow> ParsedCommandLine \<times> 'w SolutionBuilderState" where
  "applyReloadLevel h reloadLevel projPath cfg st =
     (if reloadLevel = ReloadLevel_Partial
      then (case getFileNamesFromConfigSpecs h (world st) cfg of
              (names, errs) \<Rightarrow>
                (let cfg1 = cfg\<lparr>fileNames := names, errors := errs\<rparr>
                 in (cfg1, st\<lparr>configFileCache := (configFileCache st)(projPath \<mapsto> Inr cfg1)\<rparr>)))
      else (cfg, st))"

text \<open>
  The loop of \<open>getNextInvalidatedProject\<close> over the build order, from \<open>projectIndex\<close> on:
  the handle of the first pending project that needs an action, or no handle.
\<close>

fun nextInvalidated ::
  "nat \<Rightarrow> 'w Host \<Rightarrow> ResolvedConfigFileName list \<Rightarrow> nat \<Rightarrow> ResolvedConfigFileName list
     \<Rightarrow> 'w SolutionBuilderState
     \<Rightarrow> (InvalidatedProject option \<times> 'w SolutionBuilderState) option" where
  "nextInvalidated fuel h order projectIndex [] st = Some (None, st)"
| "nextInvalidated fuel h order projectIndex (proj # rest) st =
     (let projPath = toPath h proj
      in case map_of (projectPendingBuild st) projPath of
           None \<Rightarrow> nextInvalidated fuel h order (Suc projectIndex) rest st
         | Some reloadLevel \<Rightarrow>
             (case parseConfigFile h proj projPath st of
                (None, st1) \<Rightarrow>
                  nextInvalidated fuel h order (Suc projectIndex) rest
                    (deletePending projPath (reportParseConfigFileDiagnostic projPath st1))
              | (Some cfg0, st1) \<Rightarrow>
                  (case applyReloadLevel h reloadLevel projPath cfg0 st1 of
                     (cfg, st2) \<Rightarrow>
                       (case getUpToDateStatus fuel h (Some cfg) projPath st2 of
                          None \<Rightarrow> None
                        | Some (status, st3) \<Rightarrow>
                            (let st4 = verboseReportProjectStatus proj status st3;
                                 handle = (\<lambda>k. \<lparr>kind = k, handleProject = proj,
                                               handleProjectPath = projPath,
                                               handleProjectIndex = projectIndex,
                                               handleConfig = cfg, handleBuildOrder = order\<rparr>);
                                 skip = (\<lambda>s. nextInvalidated fuel h order (Suc projectIndex) rest
                                              (deletePending projPath
                                                 (reportAndStoreErrors projPath (errors cfg) s)))
                             in case status of
                                  UpToDate info \<Rightarrow>
                                    if \<not> force (buildOptions st4)
                                    then nextInvalidated fuel h order (Suc projectIndex) rest
                                           (let st5 = deletePending projPath
                                                        (reportAndStoreErrors projPath (errors cfg) st4)
                                            in if dry (buildOptions st5)
                                               then reportStatus Project_0_is_up_to_date [proj] st5
                                               else st5)
                                    else Some (Some (handle Build), st4)
                                | UpToDateWithUpstreamTypes info \<Rightarrow>
                                    if \<not> force (buildOptions st4)
                                    then Some (Some (handle UpdateOutputFileStamps),
                                               reportAndStoreErrors projPath (errors cfg) st4)
                                    else Some (Some (handle Build), st4)
                                | UpstreamBlocked upstreamProjectName \<Rightarrow>
                                    nextInvalidated fuel h order (Suc projectIndex) rest
                                      (let st5 = deletePending projPath
                                                   (reportAndStoreErrors projPath (errors cfg) st4)
                                       in if verbose (buildOptions st5)
                                          then reportStatus
                                                 Skipping_build_of_project_0_because_its_dependency_1_has_errors
                                                 [proj, upstreamProjectName] st5
                                          else st5)
                                | ContainerOnly \<Rightarrow> skip st4
                                | other \<Rightarrow>
                                    Some (Some (handle (if needsBuild h status cfg st4 then Build
                                                        else UpdateBundle)), st4))))))"

definition getNextInvalidatedProject ::
  "nat \<Rightarrow> 'w Host \<Rightarrow> ResolvedConfigFileName list \<Rightarrow> 'w SolutionBuilderState
     \<Rightarrow> (InvalidatedProject option \<times> 'w SolutionBuilderState) option" where
  "getNextInvalidatedProject fuel h order st =
     (if projectPendingBuild st = [] then Some (None, st)
      else nextInvalidated fuel h order 0 order st)"

text \<open>\<open>reportBuildQueue\<close>.\<close>

definition reportBuildQueue ::
  "'w Host \<Rightarrow> ResolvedConfigFileName list \<Rightarrow> 'w SolutionBuilderState \<Rightarrow> 'w SolutionBuilderState" where
  "reportBuildQueue h buildQueue st =
     (if verbose (buildOptions st)
      then reportStatus Projects_in_this_build_Colon_0
             [concat (map (\<lambda>s. crlf @ ''    * '' @ relName h s) buildQueue)] st
      else st)"

text \<open>
  \<open>setupInitialBuild\<close>: once per builder, every project of the build order is set pending
  with level None. The watch status report and the cancellation token are not modelled.
\<close>

definition setupInitialBuild ::
  "nat \<Rightarrow> 'w Host \<Rightarrow> 'w SolutionBuilderState \<Rightarrow> 'w SolutionBuilderState option" where
  "setupInitialBuild fuel h st =
     (if \<not> allProjectBuildPending st then Some st
      else
        (case getBuildOrder fuel h (st\<lparr>allProjectBuildPending := False\<rparr>) of
           None \<Rightarrow> None
         | Some (order, st1) \<Rightarrow>
             (let st2 = reportBuildQueue h order st1
              in Some (fold (\<lambda>configFileName s.
                               s\<lparr>projectPendingBuild :=
                                   AList.update (toPath h configFileName) ReloadLevel_None
                                     (projectPendingBuild s)\<rparr>) order st2))))"

text \<open>
  \<open>reportErrorSummary\<close>: the diagnostics of the projects not yet reported, then the count
  of errors, through \<open>host.reportErrorSummary\<close> or, watching, the watch status.
\<close>

definition reportErrorSummary ::
  "nat \<Rightarrow> 'w Host \<Rightarrow> 'w SolutionBuilderState \<Rightarrow> 'w SolutionBuilderState option" where
  "reportErrorSummary fuel h st =
     (if \<not> needsSummary st \<or> (\<not> watch st \<and> \<not> hasReportErrorSummary h) then Some st
      else
        (case getBuildOrder fuel h (st\<lparr>needsSummary := False\<rparr>) of
           None \<Rightarrow> None
         | Some (order, st1) \<Rightarrow>
             (let st2 = fold (\<lambda>proj s.
                               if toPath h proj \<notin> projectErrorsReported s
                               then reportErrors
                                      (case map_of (diagnostics s) (toPath h proj) of
                                         None \<Rightarrow> [] | Some errs \<Rightarrow> errs) s
                               else s) order st1;
                  totalErrors = sum_list (map (\<lambda>(p, errs). getErrorCountForSummary h errs)
                                            (diagnostics st2))
              in Some (st2\<lparr>hostReports := hostReports st2 @ [ReportErrorSummary totalErrors]\<rparr>))))"

text \<open>
  The loop of \<open>build\<close>: handles are taken and done until the factory has none; the counts
  are of the projects with and without stored diagnostics. Each turn takes one unit of
  fuel.
\<close>

fun buildLoop ::
  "nat \<Rightarrow> 'w Host \<Rightarrow> ResolvedConfigFileName list \<Rightarrow> nat \<times> nat \<Rightarrow> 'w SolutionBuilderState
     \<Rightarrow> ((nat \<times> nat) \<times> 'w SolutionBuilderState) option" where
  "buildLoop 0 h order counts st = None"
| "buildLoop (Suc fuel) h order (successfulProjects, errorProjects) st =
     (case getNextInvalidatedProject (Suc fuel) h order st of
        None \<Rightarrow> None
      | Some (None, st1) \<Rightarrow> Some ((successfulProjects, errorProjects), st1)
      | Some (Some ip, st1) \<Rightarrow>
          (case done' h ip st1 of
             None \<Rightarrow> None
           | Some st2 \<Rightarrow>
               if map_of (diagnostics st2) (handleProjectPath ip) \<noteq> None
               then buildLoop fuel h order (successfulProjects, Suc errorProjects) st2
               else buildLoop fuel h order (Suc successfulProjects, errorProjects) st2))"

text \<open>
  \<open>startWatching\<close>: once, when the builder watches, every project of the build order
  is parsed for its watchers; the watchers themselves are not modelled.
\<close>

definition startWatching ::
  "nat \<Rightarrow> 'w Host \<Rightarrow> 'w SolutionBuilderState \<Rightarrow> 'w SolutionBuilderState option" where
  "startWatching fuel h st =
     (if \<not> watchAllProjectsPending st then Some st
      else
        (case getBuildOrder fuel h (st\<lparr>watchAllProjectsPending := False\<rparr>) of
           None \<Rightarrow> None
         | Some (order, st1) \<Rightarrow>
             Some (fold (\<lambda>resolved s. snd (parseConfigFile h resolved (toPath h resolved) s))
                     order st1)))"

text \<open>\<open>build\<close>. \<open>disableCache\<close> touches nothing that is modelled.\<close>

definition build ::
  "nat \<Rightarrow> 'w Host \<Rightarrow> string option \<Rightarrow> 'w SolutionBuilderState
     \<Rightarrow> (ExitStatus \<times> 'w SolutionBuilderState) option" where
  "build fuel h project st =
     (case getBuildOrderFor fuel h project st of
        None \<Rightarrow> None
      | Some (None, st1) \<Rightarrow> Some (ExitStatus_InvalidProject_OutputsSkipped, st1)
      | Some (Some order, st1) \<Rightarrow>
          (case setupInitialBuild fuel h st1 of
             None \<Rightarrow> None
           | Some st2 \<Rightarrow>
               (case buildLoop fuel h order (0, 0) st2 of
                  None \<Rightarrow> None
                | Some ((successfulProjects, errorProjects), st3) \<Rightarrow>
                    (case reportErrorSummary fuel h st3 of
                       None \<Rightarrow> None
                     | Some st4 \<Rightarrow>
                         (case startWatching fuel h st4 of
                            None \<Rightarrow> None
                          | Some st5 \<Rightarrow>
                              Some (if errorProjects \<noteq> 0
                                    then (if successfulProjects \<noteq> 0
                                          then ExitStatus_DiagnosticsPresent_OutputsGenerated
                                          else ExitStatus_DiagnosticsPresent_OutputsSkipped)
                                    else ExitStatus_Success, st5))))))"

text \<open>
  \<open>buildNextProject\<close>: one handle of the whole build order is taken and done; no
  result when there is none.
\<close>

definition buildNextProject ::
  "nat \<Rightarrow> 'w Host \<Rightarrow> 'w SolutionBuilderState
     \<Rightarrow> ((ResolvedConfigFileName \<times> ExitStatus) option \<times> 'w SolutionBuilderState) option" where
  "buildNextProject fuel h st =
     (case setupInitialBuild fuel h st of
        None \<Rightarrow> None
      | Some st1 \<Rightarrow>
          (case getBuildOrder fuel h st1 of
             None \<Rightarrow> None
           | Some (order, st2) \<Rightarrow>
               (case getNextInvalidatedProject fuel h order st2 of
                  None \<Rightarrow> None
                | Some (None, st3) \<Rightarrow> Some (None, st3)
                | Some (Some ip, st3) \<Rightarrow>
                    (case done' h ip st3 of
                       None \<Rightarrow> None
                     | Some st4 \<Rightarrow>
                         Some (Some (handleProject ip,
                                     if map_of (diagnostics st4) (handleProjectPath ip) \<noteq> None
                                     then ExitStatus_DiagnosticsPresent_OutputsSkipped
                                     else ExitStatus_Success), st4)))))"

section \<open>Cleaning\<close>

text \<open>
  \<open>invalidateProject\<close>. A full reload drops the cached configuration and the build order.
\<close>

definition invalidateProject ::
  "ResolvedConfigFilePath \<Rightarrow> ConfigFileProgramReloadLevel \<Rightarrow> 'w SolutionBuilderState
     \<Rightarrow> 'w SolutionBuilderState" where
  "invalidateProject resolved reloadLevel st =
     (let st1 = (if reloadLevel = ReloadLevel_Full
                 then st\<lparr>configFileCache := (configFileCache st)(resolved := None),
                        buildOrder := None\<rparr>
                 else st)
      in addProjToQueue resolved reloadLevel
           (clearProjectStatus resolved (st1\<lparr>needsSummary := True\<rparr>)))"

text \<open>
  The loop of \<open>clean\<close> over the outputs of one project; \<open>filesToDelete\<close> is the list a dry
  run collects, undefined otherwise.
\<close>

fun cleanOutputs ::
  "'w Host \<Rightarrow> ResolvedConfigFilePath \<Rightarrow> string list \<Rightarrow> string list option \<times> 'w SolutionBuilderState
     \<Rightarrow> string list option \<times> 'w SolutionBuilderState" where
  "cleanOutputs h resolvedPath [] acc = acc"
| "cleanOutputs h resolvedPath (output # rest) (filesToDelete, st) =
     (if fileExists h (world st) output
      then (case filesToDelete of
              Some files \<Rightarrow> cleanOutputs h resolvedPath rest (Some (files @ [output]), st)
            | None \<Rightarrow>
                cleanOutputs h resolvedPath rest
                  (None, invalidateProject resolvedPath ReloadLevel_None
                           (hostDeleteFile h output st)))
      else cleanOutputs h resolvedPath rest (filesToDelete, st))"

fun cleanProjects ::
  "'w Host \<Rightarrow> ResolvedConfigFileName list \<Rightarrow> string list option \<times> 'w SolutionBuilderState
     \<Rightarrow> string list option \<times> 'w SolutionBuilderState" where
  "cleanProjects h [] acc = acc"
| "cleanProjects h (proj # rest) (filesToDelete, st) =
     (let resolvedPath = toPath h proj
      in case parseConfigFile h proj resolvedPath st of
           (None, st1) \<Rightarrow>
             cleanProjects h rest (filesToDelete, reportParseConfigFileDiagnostic resolvedPath st1)
         | (Some parsed, st1) \<Rightarrow>
             cleanProjects h rest
               (cleanOutputs h resolvedPath (getAllProjectOutputs h parsed) (filesToDelete, st1)))"

definition clean ::
  "nat \<Rightarrow> 'w Host \<Rightarrow> string option \<Rightarrow> 'w SolutionBuilderState
     \<Rightarrow> (ExitStatus \<times> 'w SolutionBuilderState) option" where
  "clean fuel h project st =
     (case getBuildOrderFor fuel h project st of
        None \<Rightarrow> None
      | Some (None, st1) \<Rightarrow> Some (ExitStatus_InvalidProject_OutputsSkipped, st1)
      | Some (Some order, st1) \<Rightarrow>
          (case cleanProjects h order
                  (if dry (buildOptions st1) then Some [] else None, st1) of
             (filesToDelete, st2) \<Rightarrow>
               Some (ExitStatus_Success,
                     case filesToDelete of
                       Some files \<Rightarrow>
                         reportStatus A_non_dry_build_would_delete_the_following_files_Colon_0
                           [concat (map (\<lambda>f. crlf @ '' * '' @ f) files)] st2
                     | None \<Rightarrow> st2)))"

section \<open>The reference graph and the invariant of the graph builder\<close>

text \<open>
  The reference graph as the configuration cache holds it: the references of the parsed
  configuration cached under a path (none for a diagnostic or a missing entry), and the
  edges from a path to the canonical paths of the projects it references.
\<close>

definition referencesOf :: "'w SolutionBuilderState \<Rightarrow> ResolvedConfigFilePath \<Rightarrow> ProjectReference list" where
  "referencesOf st p =
     (case configFileCache st p of
        Some (Inr cfg) \<Rightarrow> (case projectReferences cfg of Some refs \<Rightarrow> refs | None \<Rightarrow> [])
      | _ \<Rightarrow> [])"

definition referenceEdges ::
  "'w Host \<Rightarrow> 'w SolutionBuilderState \<Rightarrow> (ResolvedConfigFilePath \<times> ResolvedConfigFilePath) set" where
  "referenceEdges h st =
     {(p, q). \<exists>ref \<in> set (referencesOf st p). q = toPath h (resolveProjectName h (path ref))}"

text \<open>
  The paths under which a parsed configuration can ever be cached: those that hold one
  already, and the paths of the names the host's parser accepts.
\<close>

definition parseablePaths :: "'w Host \<Rightarrow> 'w SolutionBuilderState \<Rightarrow> ResolvedConfigFilePath set" where
  "parseablePaths h st =
     {p. \<exists>cfg. configFileCache st p = Some (Inr cfg)} \<union>
     toPath h ` {n. \<exists>cfg. getParsedCommandLineOfConfigFile h n = Inr cfg}"

text \<open>Every entry of the first state's configuration cache is still in the second's.\<close>

definition cacheExtends :: "'w SolutionBuilderState \<Rightarrow> 'w SolutionBuilderState \<Rightarrow> bool" where
  "cacheExtends st st' = (\<forall>p e. configFileCache st p = Some e \<longrightarrow> configFileCache st' p = Some e)"

text \<open>
  The invariant of \<open>visit\<close>: permanent marks are temporary marks too and are the paths of
  the order built so far, which lists no path twice; the projects marked only temporarily
  are those on the report stack; every marked project has a cache entry; along the stack
  each project reaches the later ones by references; and a reference of a listed project
  leads to a marked project that is listed earlier or reaches the project back.
\<close>

definition visitInv :: "'w Host \<Rightarrow> BuildOrderLocals \<Rightarrow> 'w SolutionBuilderState \<Rightarrow> bool" where
  "visitInv h l st =
     (permanentMarks l \<subseteq> temporaryMarks l \<and>
      toPath h ` set (buildOrderAcc l) = permanentMarks l \<and>
      distinct (map (toPath h) (buildOrderAcc l)) \<and>
      temporaryMarks l - permanentMarks l = toPath h ` set (circularityReportStack l) \<and>
      (\<forall>p \<in> temporaryMarks l. configFileCache st p \<noteq> None) \<and>
      (\<forall>i j. i \<le> j \<and> j < length (circularityReportStack l) \<longrightarrow>
         (toPath h (circularityReportStack l ! i), toPath h (circularityReportStack l ! j))
           \<in> (referenceEdges h st)\<^sup>*) \<and>
      (\<forall>j b. j < length (buildOrderAcc l) \<and>
           (toPath h (buildOrderAcc l ! j), b) \<in> referenceEdges h st \<longrightarrow>
         b \<in> temporaryMarks l \<and>
         ((\<exists>i<j. toPath h (buildOrderAcc l ! i) = b) \<or>
          (b, toPath h (buildOrderAcc l ! j)) \<in> (referenceEdges h st)\<^sup>*)))"

text \<open>The cycle diagnostic among the host's reports.\<close>

fun isCycleReport :: "HostReport \<Rightarrow> bool" where
  "isCycleReport (ReportStatus m args) =
     (m = Project_references_may_not_form_a_circular_graph_Cycle_detected_Colon_0)"
| "isCycleReport r = False"

text \<open>
  What one \<open>visit\<close>, or a loop of visits, does to the locals and the state: the invariant
  holds again, marks and cache only grow, the stack is restored, only the cache and the
  reports of the state change, every new report is a cycle diagnostic and there is one
  only if the reference graph has a cycle.
\<close>

definition visitStep ::
  "'w Host \<Rightarrow> BuildOrderLocals \<Rightarrow> 'w SolutionBuilderState \<Rightarrow> BuildOrderLocals
     \<Rightarrow> 'w SolutionBuilderState \<Rightarrow> bool" where
  "visitStep h l st l' st' =
     (visitInv h l' st' \<and> cacheExtends st st' \<and>
      temporaryMarks l \<subseteq> temporaryMarks l' \<and>
      permanentMarks l \<subseteq> permanentMarks l' \<and>
      circularityReportStack l' = circularityReportStack l \<and>
      (\<exists>c r. st' = st\<lparr>configFileCache := c, hostReports := r\<rparr>) \<and>
      (\<exists>rs. hostReports st' = hostReports st @ rs \<and> list_all isCycleReport rs \<and>
            (rs = [] \<or> (\<exists>p. (p, p) \<in> (referenceEdges h st')\<^sup>+))) \<and>
      parseablePaths h st' = parseablePaths h st)"

text \<open>\<open>visit\<close> is called on a root, or on a project the top of the stack references.\<close>

definition visitPre :: "'w Host \<Rightarrow> BuildOrderLocals \<Rightarrow> 'w SolutionBuilderState \<Rightarrow> ResolvedConfigFileName \<Rightarrow> bool" where
  "visitPre h l st x =
     (circularityReportStack l = [] \<or>
      (toPath h (last (circularityReportStack l)), toPath h x) \<in> referenceEdges h st)"

section \<open>The frame of an evaluation and the statuses of the references\<close>

text \<open>The projects whose cached status is the sentinel ComputingUpstream.\<close>

definition computing :: "'w SolutionBuilderState \<Rightarrow> ResolvedConfigFilePath set" where
  "computing st = {q. projectStatus st q = Some ComputingUpstream}"

text \<open>
  What an evaluation does to the state: it adds no sentinel, drops no cached status,
  keeps the parseable paths and the cached configurations, and changes nothing but the
  configuration cache, the status map and \<open>buildInfoChecked\<close>.
\<close>

definition evalStep :: "'w Host \<Rightarrow> 'w SolutionBuilderState \<Rightarrow> 'w SolutionBuilderState \<Rightarrow> bool" where
  "evalStep h st st' =
     (computing st' \<subseteq> computing st \<and>
      dom (projectStatus st) \<subseteq> dom (projectStatus st') \<and>
      parseablePaths h st' = parseablePaths h st \<and>
      cacheExtends st st' \<and>
      (\<exists>c ps b. st' = st\<lparr>configFileCache := c, projectStatus := ps, buildInfoChecked := b\<rparr>))"

text \<open>
  The statuses of a reference after which the loop over the references goes on (for
  UpToDate: when an output is missing, so that no times are compared).
\<close>

fun continuesUpstream :: "UpToDateStatus \<Rightarrow> bool" where
  "continuesUpstream ComputingUpstream = True"
| "continuesUpstream (UpToDate info) = True"
| "continuesUpstream other = False"

text \<open>
  The statuses a list of references evaluates to, one after the other, and the state
  after the last.
\<close>

fun upstreamStatuses ::
  "'w Evaluator \<Rightarrow> 'w Host \<Rightarrow> ProjectReference list \<Rightarrow> 'w SolutionBuilderState
     \<Rightarrow> (UpToDateStatus list \<times> 'w SolutionBuilderState) option" where
  "upstreamStatuses ev h [] st = Some ([], st)"
| "upstreamStatuses ev h (ref # refs) st =
     (case evaluateReference ev h ref st of
        None \<Rightarrow> None
      | Some (refStatus, st1) \<Rightarrow>
          (case upstreamStatuses ev h refs st1 of
             None \<Rightarrow> None
           | Some (ss, st2) \<Rightarrow> Some (refStatus # ss, st2)))"

text \<open>
  \<open>state.projectStatus.set(resolvedPath, { type: ComputingUpstream })\<close>: the state in
  which the worker starts on the references.
\<close>

definition setComputingUpstream ::
  "ResolvedConfigFilePath \<Rightarrow> 'w SolutionBuilderState \<Rightarrow> 'w SolutionBuilderState" where
  "setComputingUpstream resolvedPath st =
     st\<lparr>projectStatus := (projectStatus st)(resolvedPath \<mapsto> ComputingUpstream)\<rparr>"

section \<open>What the build driver leaves unchanged\<close>

text \<open>
  The fields of the state that steer the builder, and the file system with the log of
  the host's write calls.
\<close>

definition control ::
  "'w SolutionBuilderState
     \<Rightarrow> BuildOptions \<times> string list \<times> ResolvedConfigFileName list option \<times> bool \<times> bool \<times> bool \<times> bool" where
  "control st =
     (buildOptions st, rootNames st, buildOrder st, allProjectBuildPending st, needsSummary st,
      watchAllProjectsPending st, watch st)"

definition fileSystem :: "'w SolutionBuilderState \<Rightarrow> 'w \<times> HostWrite list" where
  "fileSystem st = (world st, hostWrites st)"



text \<open>
  What one search of the factory for the next handle does to the state: the control
  fields and the file system stay, and no project becomes pending.
\<close>

definition dispatchStep :: "'w SolutionBuilderState \<Rightarrow> 'w SolutionBuilderState \<Rightarrow> bool" where
  "dispatchStep st st' =
     (control st' = control st \<and> fileSystem st' = fileSystem st \<and>
      (\<forall>k. map_of (projectPendingBuild st) k = None \<longrightarrow> map_of (projectPendingBuild st') k = None))"

text \<open>
  A builder after a build of the whole solution: the build order is known, none of its
  projects is pending, and the one-time steps of the driver have been taken.
\<close>

definition settled :: "'w Host \<Rightarrow> 'w SolutionBuilderState \<Rightarrow> bool" where
  "settled h st =
     (\<not> allProjectBuildPending st \<and> \<not> watchAllProjectsPending st \<and>
      (\<not> needsSummary st \<or> (\<not> watch st \<and> \<not> hasReportErrorSummary h)) \<and>
      (\<exists>order. buildOrder st = Some order \<and>
         list_all (\<lambda>p. map_of (projectPendingBuild st) (toPath h p) = None) order))"

text \<open>
  \<open>project && resolveProjectName(state, project)\<close>: the resolved name of the requested
  project, none for an absent or empty name.
\<close>

definition requestedProject :: "'w Host \<Rightarrow> string option \<Rightarrow> ResolvedConfigFileName option" where
  "requestedProject h project =
     (case project of
        None \<Rightarrow> None
      | Some p \<Rightarrow> if p = [] \<or> resolveProjectName h p = [] then None
                  else Some (resolveProjectName h p))"

(* MODEL-END *)

section \<open>Example states\<close>

definition plainOptions :: BuildOptions where
  "plainOptions = \<lparr>dry = False, force = False, verbose = False\<rparr>"

text \<open>A new builder in which one project has been enqueued with level Partial.\<close>

definition queuedState :: "'w::default SolutionBuilderState" where
  "queuedState =
     addProjToQueue ''/p/tsconfig.json'' ReloadLevel_Partial
       (createSolutionBuilderState False [''/p''] plainOptions default)"

text \<open>
  A small host for the examples: the world is a list of files with their modification
  time and text, and a clock; configuration files are a table from name to parsed
  configuration; names are already resolved and canonical; a project's outputs are one
  \<open>.js\<close> file per input, which the program builder emits without diagnostics.
\<close>

record ExampleWorld =
  files :: "(string \<times> Date \<times> string) list"
  clock :: Date

definition exampleHost :: "(string \<times> ParsedCommandLine) list \<Rightarrow> ExampleWorld Host" where
  "exampleHost configs =
     \<lparr>toPath = (\<lambda>s. s),
      resolveProjectName = (\<lambda>s. s),
      resolveProjectReferencePath = path,
      getParsedCommandLineOfConfigFile =
        (\<lambda>n. case map_of configs n of Some cfg \<Rightarrow> Inr cfg | None \<Rightarrow> Inl (''cannot read '' @ n)),
      getFileNamesFromConfigSpecs = (\<lambda>w cfg. (fileNames cfg, errors cfg)),
      canJsonReportNoInutFiles = (\<lambda>cfg. False),
      getAllProjectOutputs = (\<lambda>cfg. map (\<lambda>f. f @ ''.js'') (fileNames cfg)),
      getFirstProjectOutput = (\<lambda>cfg. case fileNames cfg of [] \<Rightarrow> [] | f # fs \<Rightarrow> f @ ''.js''),
      getOutputPathForBuildInfo = (\<lambda>opts. None),
      isIncrementalCompilation = (\<lambda>opts. False),
      isDeclarationFile = (\<lambda>f. False),
      getBuildInfoVersion = (\<lambda>t. ''3.6''),
      version = ''3.6'',
      getErrorCountForSummary = length,
      fileExists = (\<lambda>w f. map_of (files w) f \<noteq> None),
      getModifiedTime = (\<lambda>w f. map_option fst (map_of (files w) f)),
      readFile = (\<lambda>w f. map_option snd (map_of (files w) f)),
      writeFile = (\<lambda>f t w. (None, w\<lparr>files := AList.update f (clock w, t) (files w)\<rparr>)),
      setModifiedTime =
        (\<lambda>f t w. case map_of (files w) f of
                    None \<Rightarrow> w
                  | Some (t0, txt) \<Rightarrow> w\<lparr>files := AList.update f (t, txt) (files w)\<rparr>),
      deleteFile = (\<lambda>f w. w\<lparr>files := AList.delete f (files w)\<rparr>),
      now = clock,
      missingFileModifiedTime = 0,
      createProgram =
        (\<lambda>w cfg. \<lparr>syntaxDiagnostics = [], semanticDiagnostics = [], declDiagnostics = [],
                   outputFiles = map (\<lambda>f. \<lparr>name = f @ ''.js'', fileText = ''js'',
                                            writeByteOrderMark = False\<rparr>) (fileNames cfg)\<rparr>),
      emitUsingBuildInfo = (\<lambda>w cfg. Inl ''tsbuildinfo''),
      hasReportErrorSummary = False,
      hasTrace = False,
      relName = (\<lambda>s. s)\<rparr>"

text \<open>A composite project with the given configuration file, inputs and references.\<close>

definition exampleProject :: "string \<Rightarrow> string list \<Rightarrow> string list \<Rightarrow> ParsedCommandLine" where
  "exampleProject config inputs refs =
     \<lparr>options = \<lparr>composite = True, configFilePath = config, extendedSourceFiles = [],
                  listEmittedFiles = False\<rparr>,
      fileNames = inputs,
      projectReferences =
        (if refs = [] then None
         else Some (map (\<lambda>r. \<lparr>path = r, prepend = False, circular = False\<rparr>) refs)),
      errors = []\<rparr>"

text \<open>A new one-shot builder over the given files.\<close>

definition exampleState :: "BuildOptions \<Rightarrow> (string \<times> Date \<times> string) list \<Rightarrow> ExampleWorld SolutionBuilderState" where
  "exampleState opts fs =
     createSolutionBuilderState False [] opts \<lparr>files = fs, clock = 100\<rparr>"

text \<open>Two projects, b references a.\<close>

definition chainConfigs :: "(string \<times> ParsedCommandLine) list" where
  "chainConfigs =
     [(''/a/tsconfig.json'', exampleProject ''/a/tsconfig.json'' [''/a/a.ts''] []),
      (''/b/tsconfig.json'', exampleProject ''/b/tsconfig.json'' [''/b/b.ts''] [''/a/tsconfig.json''])]"

text \<open>Two projects that reference each other, neither reference flagged circular.\<close>

definition cycleConfigs :: "(string \<times> ParsedCommandLine) list" where
  "cycleConfigs =
     [(''/a/tsconfig.json'', exampleProject ''/a/tsconfig.json'' [''/a/a.ts''] [''/b/tsconfig.json'']),
      (''/b/tsconfig.json'', exampleProject ''/b/tsconfig.json'' [''/b/b.ts''] [''/a/tsconfig.json''])]"


text \<open>The number of cycle diagnostics one run of \<open>createBuildOrder\<close> reports.\<close>

definition reportedCycles ::
  "nat \<Rightarrow> 'w Host \<Rightarrow> ResolvedConfigFileName list \<Rightarrow> 'w SolutionBuilderState \<Rightarrow> nat option" where
  "reportedCycles fuel h roots st =
     (case createBuildOrder fuel h roots st of
        None \<Rightarrow> None
      | Some (order, st1) \<Rightarrow>
          Some (length (filter isCycleReport (drop (length (hostReports st)) (hostReports st1)))))"


text \<open>
  The files of the examples: every project's input, written at time 10, except that of
  r2, and one output, that of r0, written at time 20.
\<close>

definition sourceFiles :: "(string \<times> Date \<times> string) list" where
  "sourceFiles =
     [(''/a/a.ts'', 10, ''a''), (''/b/b.ts'', 10, ''b''),
      (''/p/p.ts'', 10, ''p''), (''/r0/r0.ts'', 10, ''r0''), (''/r0/r0.ts.js'', 20, ''js''),
      (''/r1/r1.ts'', 10, ''r1'')]"

text \<open>p references r0, which is up to date, and r2, whose input file does not exist.\<close>

definition blockedConfigs :: "(string \<times> ParsedCommandLine) list" where
  "blockedConfigs =
     [(''/p/tsconfig.json'', exampleProject ''/p/tsconfig.json'' [''/p/p.ts'']
          [''/r0/tsconfig.json'', ''/r2/tsconfig.json'']),
      (''/r0/tsconfig.json'', exampleProject ''/r0/tsconfig.json'' [''/r0/r0.ts''] []),
      (''/r2/tsconfig.json'', exampleProject ''/r2/tsconfig.json'' [''/r2/r2.ts''] [])]"

text \<open>p references r1, whose output is missing, and r2, whose input file does not exist.\<close>

definition staleConfigs :: "(string \<times> ParsedCommandLine) list" where
  "staleConfigs =
     [(''/p/tsconfig.json'', exampleProject ''/p/tsconfig.json'' [''/p/p.ts'']
          [''/r1/tsconfig.json'', ''/r2/tsconfig.json'']),
      (''/r1/tsconfig.json'', exampleProject ''/r1/tsconfig.json'' [''/r1/r1.ts''] []),
      (''/r2/tsconfig.json'', exampleProject ''/r2/tsconfig.json'' [''/r2/r2.ts''] [])]"

text \<open>The projects b references a, with a built and b not yet parsed or pending.\<close>

definition producerBuilt :: "ExampleWorld SolutionBuilderState" where
  "producerBuilt = exampleState plainOptions sourceFiles"


text \<open>
  A root that references a through a reference flagged circular, above the cycle of a
  and b, whose references are not flagged.
\<close>

definition flaggedConfigs :: "(string \<times> ParsedCommandLine) list" where
  "flaggedConfigs =
     (''/r/tsconfig.json'',
      (exampleProject ''/r/tsconfig.json'' [''/r/r.ts''] [])\<lparr>projectReferences :=
         Some [\<lparr>path = ''/a/tsconfig.json'', prepend = False, circular = True\<rparr>]\<rparr>) # cycleConfigs"

definition exampleBuilder ::
  "string list \<Rightarrow> BuildOptions \<Rightarrow> (string \<times> Date \<times> string) list \<Rightarrow> ExampleWorld SolutionBuilderState" where
  "exampleBuilder roots opts fs =
     (exampleState opts fs)\<lparr>rootNames := roots\<rparr>"


section \<open>Properties\<close>

subsection \<open>The pending-build queue\<close>

lemma addProjToQueue_lookup:
  "map_of (projectPendingBuild (addProjToQueue k l st)) k' =
     (if k' = k then
        (case map_of (projectPendingBuild st) k of
           None \<Rightarrow> Some l
         | Some v \<Rightarrow> if levelValue v < levelValue l then Some l else Some v)
      else map_of (projectPendingBuild st) k')"
  by (simp add: addProjToQueue_def update_conv' split: option.splits)

lemma addProjToQueue_unchanged:
  "map_of (projectPendingBuild st) k = Some v \<Longrightarrow> levelValue l \<le> levelValue v \<Longrightarrow>
   addProjToQueue k l st = st"
  by (simp add: addProjToQueue_def)

lemma addProjsToQueue_Cons:
  "addProjsToQueue ((k, l) # reqs) st = addProjsToQueue reqs (addProjToQueue k l st)"
  by (simp add: addProjsToQueue_def)

lemma addProjsToQueue_Nil: "addProjsToQueue [] st = st"
  by (simp add: addProjsToQueue_def)

lemma addProjsToQueue_absent:
  "map_of (projectPendingBuild st) k = None \<Longrightarrow> k \<notin> fst ` set reqs \<Longrightarrow>
   map_of (projectPendingBuild (addProjsToQueue reqs st)) k = None"
proof (induction reqs arbitrary: st)
  case Nil
  then show ?case by (simp add: addProjsToQueue_Nil)
next
  case (Cons r reqs)
  obtain k0 l0 where r: "r = (k0, l0)" by (cases r)
  from Cons.prems have "k0 \<noteq> k" "k \<notin> fst ` set reqs" by (auto simp: r)
  with Cons.prems Cons.IH [of "addProjToQueue k0 l0 st"] show ?case
    by (simp add: r addProjsToQueue_Cons addProjToQueue_lookup)
qed

lemma addProjsToQueue_present:
  "map_of (projectPendingBuild st) k = Some v \<Longrightarrow>
   \<exists>v'. map_of (projectPendingBuild (addProjsToQueue reqs st)) k = Some v' \<and>
        levelValue v \<le> levelValue v' \<and>
        (\<forall>l. (k, l) \<in> set reqs \<longrightarrow> levelValue l \<le> levelValue v') \<and>
        (v' = v \<or> (k, v') \<in> set reqs)"
proof (induction reqs arbitrary: st v)
  case Nil
  then show ?case by (simp add: addProjsToQueue_Nil)
next
  case (Cons r reqs)
  obtain k0 l0 where r: "r = (k0, l0)" by (cases r)
  let ?st1 = "addProjToQueue k0 l0 st"
  show ?case
  proof (cases "k0 = k")
    case False
    with Cons.prems have "map_of (projectPendingBuild ?st1) k = Some v"
      by (simp add: addProjToQueue_lookup)
    from Cons.IH [OF this] False show ?thesis
      by (auto simp: r addProjsToQueue_Cons)
  next
    case True
    show ?thesis
    proof (cases "levelValue v < levelValue l0")
      case less: True
      with Cons.prems True have "map_of (projectPendingBuild ?st1) k = Some l0"
        by (simp add: addProjToQueue_lookup)
      from Cons.IH [OF this] True less show ?thesis
        by (fastforce simp: r addProjsToQueue_Cons)
    next
      case geq: False
      with Cons.prems True have "map_of (projectPendingBuild ?st1) k = Some v"
        by (simp add: addProjToQueue_lookup)
      from Cons.IH [OF this] True geq show ?thesis
        by (fastforce simp: r addProjsToQueue_Cons)
    qed
  qed
qed

lemma addProjsToQueue_requested:
  "(k, l) \<in> set reqs \<Longrightarrow>
   \<exists>v'. map_of (projectPendingBuild (addProjsToQueue reqs st)) k = Some v' \<and>
        levelValue l \<le> levelValue v'"
proof (induction reqs arbitrary: st)
  case Nil
  then show ?case by simp
next
  case (Cons r reqs)
  obtain k0 l0 where r: "r = (k0, l0)" by (cases r)
  let ?st1 = "addProjToQueue k0 l0 st"
  show ?case
  proof (cases "r = (k, l)")
    case True
    then have "\<exists>v1. map_of (projectPendingBuild ?st1) k = Some v1 \<and>
      levelValue l \<le> levelValue v1"
      by (cases "map_of (projectPendingBuild st) k") (auto simp: r addProjToQueue_lookup)
    then obtain v1 where v1: "map_of (projectPendingBuild ?st1) k = Some v1"
      "levelValue l \<le> levelValue v1"
      by blast
    from addProjsToQueue_present [OF v1(1), of reqs] v1(2) show ?thesis
      by (auto simp: r addProjsToQueue_Cons)
  next
    case False
    with Cons.prems have "(k, l) \<in> set reqs" by simp
    from Cons.IH [OF this, of ?st1] show ?thesis
      by (simp add: r addProjsToQueue_Cons)
  qed
qed

text \<open>
  Claim C5 (monotone reload level). Over any sequence of enqueue operations, the level
  stored for a key that already has an entry never decreases: the entry after the
  sequence is at least the entry before it and at least every level requested for the
  key, it is one of those levels (so it is their maximum), and enqueueing the key once
  more with a level that is lower or equal leaves the whole state unchanged.
\<close>

theorem addProjToQueue_monotone:
  "map_of (projectPendingBuild st) k = Some v \<Longrightarrow>
   \<exists>v'. map_of (projectPendingBuild (addProjsToQueue reqs st)) k = Some v' \<and>
        levelValue v \<le> levelValue v' \<and>
        (\<forall>l. (k, l) \<in> set reqs \<longrightarrow> levelValue l \<le> levelValue v') \<and>
        (v' = v \<or> (k, v') \<in> set reqs) \<and>
        (\<forall>l. levelValue l \<le> levelValue v' \<longrightarrow>
           addProjToQueue k l (addProjsToQueue reqs st) = addProjsToQueue reqs st)"
proof -
  assume a: "map_of (projectPendingBuild st) k = Some v"
  from addProjsToQueue_present [OF a, of reqs] obtain v' where
    v': "map_of (projectPendingBuild (addProjsToQueue reqs st)) k = Some v'"
      "levelValue v \<le> levelValue v'"
      "\<forall>l. (k, l) \<in> set reqs \<longrightarrow> levelValue l \<le> levelValue v'"
      "v' = v \<or> (k, v') \<in> set reqs"
    by blast
  have "\<forall>l. levelValue l \<le> levelValue v' \<longrightarrow>
           addProjToQueue k l (addProjsToQueue reqs st) = addProjsToQueue reqs st"
    using addProjToQueue_unchanged [OF v'(1)] by blast
  with v' show ?thesis by blast
qed

theorem addProjToQueue_monotone_witness:
  "map_of (projectPendingBuild (queuedState :: unit SolutionBuilderState)) ''/p/tsconfig.json''
     = Some ReloadLevel_Partial \<and>
   map_of (projectPendingBuild (addProjsToQueue
       [(''/p/tsconfig.json'', ReloadLevel_None), (''/p/tsconfig.json'', ReloadLevel_Full),
        (''/p/tsconfig.json'', ReloadLevel_Partial)] (queuedState :: unit SolutionBuilderState)))
     ''/p/tsconfig.json'' = Some ReloadLevel_Full"
proof -
  have h: "map_of (projectPendingBuild (queuedState :: unit SolutionBuilderState))
      ''/p/tsconfig.json'' = Some ReloadLevel_Partial"
    by (simp add: queuedState_def addProjToQueue_def createSolutionBuilderState_def)
  from addProjToQueue_monotone [OF h, of "[(''/p/tsconfig.json'', ReloadLevel_None),
      (''/p/tsconfig.json'', ReloadLevel_Full), (''/p/tsconfig.json'', ReloadLevel_Partial)]"]
  obtain v' where v': "map_of (projectPendingBuild (addProjsToQueue
       [(''/p/tsconfig.json'', ReloadLevel_None), (''/p/tsconfig.json'', ReloadLevel_Full),
        (''/p/tsconfig.json'', ReloadLevel_Partial)] (queuedState :: unit SolutionBuilderState)))
     ''/p/tsconfig.json'' = Some v'"
    "(\<forall>l. (''/p/tsconfig.json'', l) \<in> set [(''/p/tsconfig.json'', ReloadLevel_None),
      (''/p/tsconfig.json'', ReloadLevel_Full), (''/p/tsconfig.json'', ReloadLevel_Partial)]
      \<longrightarrow> levelValue l \<le> levelValue v')"
    by blast
  from v'(2) have "levelValue ReloadLevel_Full \<le> levelValue v'" by simp
  then have "v' = ReloadLevel_Full" by (cases v') simp_all
  with v'(1) h show ?thesis by simp
qed


subsection \<open>The graph builder\<close>

lemma cacheExtends_refl: "cacheExtends st st"
  by (simp add: cacheExtends_def)

lemma cacheExtends_trans: "cacheExtends a b \<Longrightarrow> cacheExtends b c \<Longrightarrow> cacheExtends a c"
  by (simp add: cacheExtends_def)

lemma referencesOf_extends:
  "cacheExtends st st' \<Longrightarrow> ref \<in> set (referencesOf st p) \<Longrightarrow> referencesOf st' p = referencesOf st p"
proof -
  assume e: "cacheExtends st st'" and r: "ref \<in> set (referencesOf st p)"
  from r have "\<exists>cfg. configFileCache st p = Some (Inr cfg)"
    by (cases "configFileCache st p"; cases "the (configFileCache st p)")
       (simp_all add: referencesOf_def)
  then obtain cfg where "configFileCache st p = Some (Inr cfg)" by blast
  moreover from this e have "configFileCache st' p = Some (Inr cfg)"
    by (simp add: cacheExtends_def)
  ultimately show ?thesis by (simp add: referencesOf_def)
qed

lemma referenceEdges_mono:
  assumes "cacheExtends st st'"
  shows "referenceEdges h st \<subseteq> referenceEdges h st'"
proof
  fix e assume "e \<in> referenceEdges h st"
  then obtain p ref where e: "e = (p, toPath h (resolveProjectName h (path ref)))"
    and r: "ref \<in> set (referencesOf st p)"
    unfolding referenceEdges_def by blast
  from referencesOf_extends [OF assms r] r have "ref \<in> set (referencesOf st' p)" by simp
  with e show "e \<in> referenceEdges h st'" unfolding referenceEdges_def by blast
qed

lemma referenceEdges_rtrancl_mono:
  "cacheExtends st st' \<Longrightarrow> (a, b) \<in> (referenceEdges h st)\<^sup>* \<Longrightarrow> (a, b) \<in> (referenceEdges h st')\<^sup>*"
  by (rule subsetD [OF rtrancl_mono [OF referenceEdges_mono]])

lemma referenceEdges_trancl_mono:
  "cacheExtends st st' \<Longrightarrow> (a, b) \<in> (referenceEdges h st)\<^sup>+ \<Longrightarrow> (a, b) \<in> (referenceEdges h st')\<^sup>+"
  by (rule trancl_mono [OF _ referenceEdges_mono])

lemma parseConfigFile_cases:
  assumes "parseConfigFile h n p st = (r, st1)"
  shows "\<exists>c. st1 = st\<lparr>configFileCache := c\<rparr>"
    and "cacheExtends st st1"
    and "\<exists>e. configFileCache st1 p = Some e \<and> r = (case e of Inr cfg \<Rightarrow> Some cfg | Inl d \<Rightarrow> None)"
    and "\<forall>q. q \<noteq> p \<longrightarrow> configFileCache st1 q = configFileCache st q"
    and "configFileCache st p = None \<longrightarrow>
            configFileCache st1 p = Some (getParsedCommandLineOfConfigFile h n)"
proof -
  have "(\<exists>c. st1 = st\<lparr>configFileCache := c\<rparr>) \<and> cacheExtends st st1 \<and>
         (\<exists>e. configFileCache st1 p = Some e \<and> r = (case e of Inr cfg \<Rightarrow> Some cfg | Inl d \<Rightarrow> None)) \<and>
         (\<forall>q. q \<noteq> p \<longrightarrow> configFileCache st1 q = configFileCache st q) \<and>
         (configFileCache st p = None \<longrightarrow>
            configFileCache st1 p = Some (getParsedCommandLineOfConfigFile h n))"
  proof (cases "configFileCache st p")
    case None
    with assms show ?thesis
      by (cases "getParsedCommandLineOfConfigFile h n")
         (auto simp: parseConfigFile_def cacheExtends_def Let_def)
  next
    case (Some e)
    have "\<exists>c. st = st\<lparr>configFileCache := c\<rparr>"
      by (rule exI [of _ "configFileCache st"]) simp
    with Some assms show ?thesis
      by (cases e) (auto simp: parseConfigFile_def cacheExtends_def)
  qed
  then show "\<exists>c. st1 = st\<lparr>configFileCache := c\<rparr>"
    and "cacheExtends st st1"
    and "\<exists>e. configFileCache st1 p = Some e \<and> r = (case e of Inr cfg \<Rightarrow> Some cfg | Inl d \<Rightarrow> None)"
    and "\<forall>q. q \<noteq> p \<longrightarrow> configFileCache st1 q = configFileCache st q"
    and "configFileCache st p = None \<longrightarrow>
            configFileCache st1 p = Some (getParsedCommandLineOfConfigFile h n)"
    by simp_all
qed

lemma parseConfigFile_parseable:
  assumes "parseConfigFile h n (toPath h n) st = (r, st1)"
  shows "parseablePaths h st1 = parseablePaths h st"
proof -
  note ext = parseConfigFile_cases(2) [OF assms]
  note oth = parseConfigFile_cases(4) [OF assms]
  note new = parseConfigFile_cases(5) [OF assms]
  let ?I = "toPath h ` {n. \<exists>cfg. getParsedCommandLineOfConfigFile h n = Inr cfg}"
  let ?A = "{p. \<exists>cfg. configFileCache st p = Some (Inr cfg)}"
  let ?A1 = "{p. \<exists>cfg. configFileCache st1 p = Some (Inr cfg)}"
  have sub: "?A \<subseteq> ?A1"
    using ext unfolding cacheExtends_def by blast
  have sup: "?A1 \<subseteq> ?A \<union> ?I"
  proof
    fix q assume "q \<in> ?A1"
    then obtain cfg where c: "configFileCache st1 q = Some (Inr cfg)" by blast
    show "q \<in> ?A \<union> ?I"
    proof (cases "q \<noteq> toPath h n \<or> configFileCache st q \<noteq> None")
      case True
      then have "configFileCache st q = Some (Inr cfg)"
      proof
        assume "q \<noteq> toPath h n"
        with oth c show ?thesis by simp
      next
        assume "configFileCache st q \<noteq> None"
        then obtain e where e: "configFileCache st q = Some e" by blast
        with ext have "configFileCache st1 q = Some e" unfolding cacheExtends_def by blast
        with c e show ?thesis by simp
      qed
      then show ?thesis by blast
    next
      case False
      then have q: "q = toPath h n" and "configFileCache st (toPath h n) = None" by simp_all
      with new have "configFileCache st1 (toPath h n) = Some (getParsedCommandLineOfConfigFile h n)"
        by blast
      with c q have "getParsedCommandLineOfConfigFile h n = Inr cfg" by simp
      then have "n \<in> {n. \<exists>cfg. getParsedCommandLineOfConfigFile h n = Inr cfg}" by blast
      then have "toPath h n \<in> ?I" by (rule imageI)
      with q show ?thesis by blast
    qed
  qed
  have "?A1 \<union> ?I = ?A \<union> ?I" using sub sup by blast
  then show ?thesis unfolding parseablePaths_def .
qed

lemma visitInvD:
  assumes "visitInv h l st"
  shows "permanentMarks l \<subseteq> temporaryMarks l"
    and "toPath h ` set (buildOrderAcc l) = permanentMarks l"
    and "distinct (map (toPath h) (buildOrderAcc l))"
    and "temporaryMarks l - permanentMarks l = toPath h ` set (circularityReportStack l)"
    and "\<forall>p \<in> temporaryMarks l. configFileCache st p \<noteq> None"
    and "\<forall>i j. i \<le> j \<and> j < length (circularityReportStack l) \<longrightarrow>
         (toPath h (circularityReportStack l ! i), toPath h (circularityReportStack l ! j))
           \<in> (referenceEdges h st)\<^sup>*"
    and "\<forall>j b. j < length (buildOrderAcc l) \<and>
           (toPath h (buildOrderAcc l ! j), b) \<in> referenceEdges h st \<longrightarrow>
         b \<in> temporaryMarks l \<and>
         ((\<exists>i<j. toPath h (buildOrderAcc l ! i) = b) \<or>
          (b, toPath h (buildOrderAcc l ! j)) \<in> (referenceEdges h st)\<^sup>*)"
  using assms unfolding visitInv_def by simp_all

lemma referencesOf_stable:
  assumes "cacheExtends st st'" "configFileCache st p \<noteq> None"
  shows "referencesOf st' p = referencesOf st p"
proof -
  from assms(2) obtain e where e: "configFileCache st p = Some e" by blast
  with assms(1) have "configFileCache st' p = Some e" unfolding cacheExtends_def by blast
  with e show ?thesis by (simp add: referencesOf_def)
qed

lemma referenceEdges_stable:
  assumes "cacheExtends st st'" "configFileCache st p \<noteq> None"
  shows "(p, b) \<in> referenceEdges h st' \<longleftrightarrow> (p, b) \<in> referenceEdges h st"
  unfolding referenceEdges_def using referencesOf_stable [OF assms] by simp

lemma visitInv_extends:
  assumes inv: "visitInv h l st" and ext: "cacheExtends st st'"
  shows "visitInv h l st'"
proof -
  note i = inv [unfolded visitInv_def]
  have g: "\<forall>p \<in> temporaryMarks l. configFileCache st' p \<noteq> None"
  proof
    fix p assume "p \<in> temporaryMarks l"
    with i obtain e where "configFileCache st p = Some e" by blast
    with ext have "configFileCache st' p = Some e" unfolding cacheExtends_def by blast
    then show "configFileCache st' p \<noteq> None" by simp
  qed
  have d: "\<forall>i j. i \<le> j \<and> j < length (circularityReportStack l) \<longrightarrow>
         (toPath h (circularityReportStack l ! i), toPath h (circularityReportStack l ! j))
           \<in> (referenceEdges h st')\<^sup>*"
  proof (intro allI impI)
    fix a b assume "a \<le> b \<and> b < length (circularityReportStack l)"
    with i have "(toPath h (circularityReportStack l ! a), toPath h (circularityReportStack l ! b))
           \<in> (referenceEdges h st)\<^sup>*" by blast
    then show "(toPath h (circularityReportStack l ! a), toPath h (circularityReportStack l ! b))
           \<in> (referenceEdges h st')\<^sup>*" by (rule referenceEdges_rtrancl_mono [OF ext])
  qed
  have e: "\<forall>j b. j < length (buildOrderAcc l) \<and>
           (toPath h (buildOrderAcc l ! j), b) \<in> referenceEdges h st' \<longrightarrow>
         b \<in> temporaryMarks l \<and>
         ((\<exists>i<j. toPath h (buildOrderAcc l ! i) = b) \<or>
          (b, toPath h (buildOrderAcc l ! j)) \<in> (referenceEdges h st')\<^sup>*)"
  proof (intro allI impI)
    fix j b assume a: "j < length (buildOrderAcc l) \<and>
           (toPath h (buildOrderAcc l ! j), b) \<in> referenceEdges h st'"
    then have "toPath h (buildOrderAcc l ! j) \<in> toPath h ` set (buildOrderAcc l)" by simp
    with i have "toPath h (buildOrderAcc l ! j) \<in> temporaryMarks l" by blast
    with i have "configFileCache st (toPath h (buildOrderAcc l ! j)) \<noteq> None" by blast
    from referenceEdges_stable [OF ext this] a
    have "(toPath h (buildOrderAcc l ! j), b) \<in> referenceEdges h st" by simp
    with a i have r: "b \<in> temporaryMarks l \<and>
         ((\<exists>i<j. toPath h (buildOrderAcc l ! i) = b) \<or>
          (b, toPath h (buildOrderAcc l ! j)) \<in> (referenceEdges h st)\<^sup>*)" by blast
    then show "b \<in> temporaryMarks l \<and>
         ((\<exists>i<j. toPath h (buildOrderAcc l ! i) = b) \<or>
          (b, toPath h (buildOrderAcc l ! j)) \<in> (referenceEdges h st')\<^sup>*)"
      using referenceEdges_rtrancl_mono [OF ext] by blast
  qed
  from i g d e show ?thesis unfolding visitInv_def by blast
qed

lemma visitInv_reports [simp]:
  "visitInv h l (st\<lparr>hostReports := r\<rparr>) = visitInv h l st"
  by (simp add: visitInv_def referenceEdges_def referencesOf_def)

lemma referenceEdges_reports [simp]:
  "referenceEdges h (st\<lparr>hostReports := r\<rparr>) = referenceEdges h st"
  by (simp add: referenceEdges_def referencesOf_def)

lemma parseablePaths_reports [simp]:
  "parseablePaths h (st\<lparr>hostReports := r\<rparr>) = parseablePaths h st"
  by (simp add: parseablePaths_def)

lemma cacheExtends_reports [simp]:
  "cacheExtends st (st\<lparr>hostReports := r\<rparr>)"
  by (simp add: cacheExtends_def)

lemma visitStep_refl: "visitInv h l st \<Longrightarrow> visitStep h l st l st"
proof -
  assume i: "visitInv h l st"
  have "\<exists>r. st = st\<lparr>configFileCache := configFileCache st, hostReports := r\<rparr>"
    by (rule exI [of _ "hostReports st"]) simp
  then have "\<exists>c r. st = st\<lparr>configFileCache := c, hostReports := r\<rparr>"
    by (rule exI [of _ "configFileCache st"])
  moreover have "\<exists>rs. hostReports st = hostReports st @ rs \<and> list_all isCycleReport rs \<and>
            (rs = [] \<or> (\<exists>p. (p, p) \<in> (referenceEdges h st)\<^sup>+))"
    by (rule exI [of _ "[]"]) simp
  ultimately show ?thesis using i by (simp add: visitStep_def cacheExtends_refl)
qed

lemma visitStep_trans:
  assumes a: "visitStep h l st l1 st1" and b: "visitStep h l1 st1 l2 st2"
  shows "visitStep h l st l2 st2"
proof -
  note a' = a [unfolded visitStep_def]
  note b' = b [unfolded visitStep_def]
  from a' obtain c1 r1 where s1: "st1 = st\<lparr>configFileCache := c1, hostReports := r1\<rparr>" by blast
  from b' obtain c2 r2 where s2: "st2 = st1\<lparr>configFileCache := c2, hostReports := r2\<rparr>" by blast
  from s1 s2 have "st2 = st\<lparr>configFileCache := c2, hostReports := r2\<rparr>" by simp
  then have fr: "\<exists>c r. st2 = st\<lparr>configFileCache := c, hostReports := r\<rparr>" by blast
  have ext: "cacheExtends st st2" using a' b' cacheExtends_trans by blast
  from a' obtain rs1 where r1: "hostReports st1 = hostReports st @ rs1" "list_all isCycleReport rs1"
      "rs1 = [] \<or> (\<exists>p. (p, p) \<in> (referenceEdges h st1)\<^sup>+)" by blast
  from b' obtain rs2 where r2: "hostReports st2 = hostReports st1 @ rs2" "list_all isCycleReport rs2"
      "rs2 = [] \<or> (\<exists>p. (p, p) \<in> (referenceEdges h st2)\<^sup>+)" by blast
  from b' have e12: "cacheExtends st1 st2" by blast
  have cyc: "rs1 @ rs2 = [] \<or> (\<exists>p. (p, p) \<in> (referenceEdges h st2)\<^sup>+)"
  proof (cases "rs2 = []")
    case False
    with r2(3) show ?thesis by simp
  next
    case True
    show ?thesis
    proof (cases "rs1 = []")
      case True
      with \<open>rs2 = []\<close> show ?thesis by simp
    next
      case False
      with r1(3) obtain p where "(p, p) \<in> (referenceEdges h st1)\<^sup>+" by blast
      with e12 have "(p, p) \<in> (referenceEdges h st2)\<^sup>+" by (rule referenceEdges_trancl_mono)
      then show ?thesis by blast
    qed
  qed
  have "hostReports st2 = hostReports st @ (rs1 @ rs2)" using r1(1) r2(1) by simp
  moreover have "list_all isCycleReport (rs1 @ rs2)" using r1(2) r2(2) by simp
  ultimately have rep: "\<exists>rs. hostReports st2 = hostReports st @ rs \<and> list_all isCycleReport rs \<and>
            (rs = [] \<or> (\<exists>p. (p, p) \<in> (referenceEdges h st2)\<^sup>+))"
    using cyc by blast
  from a' have A: "temporaryMarks l \<subseteq> temporaryMarks l1" "permanentMarks l \<subseteq> permanentMarks l1"
    "circularityReportStack l1 = circularityReportStack l" "parseablePaths h st1 = parseablePaths h st"
    by simp_all
  from b' have B: "temporaryMarks l1 \<subseteq> temporaryMarks l2" "permanentMarks l1 \<subseteq> permanentMarks l2"
    "circularityReportStack l2 = circularityReportStack l1" "parseablePaths h st2 = parseablePaths h st1"
    "visitInv h l2 st2"
    by simp_all
  from A B have "temporaryMarks l \<subseteq> temporaryMarks l2" "permanentMarks l \<subseteq> permanentMarks l2"
    "circularityReportStack l2 = circularityReportStack l" "parseablePaths h st2 = parseablePaths h st"
    by auto
  with B(5) fr ext rep show ?thesis unfolding visitStep_def by simp
qed

lemma visitInv_push:
  assumes inv: "visitInv h l st" and p: "p = toPath h x" and fresh: "p \<notin> temporaryMarks l"
    and pre: "visitPre h l st x" and c: "configFileCache st p \<noteq> None"
  shows "visitInv h (l\<lparr>temporaryMarks := insert p (temporaryMarks l),
            circularityReportStack := circularityReportStack l @ [x]\<rparr>) st"
proof -
  note i = inv [unfolded visitInv_def]
  let ?stk = "circularityReportStack l"
  from i fresh have pP: "p \<notin> permanentMarks l" by blast
  have a: "permanentMarks l \<subseteq> insert p (temporaryMarks l)" using i by blast
  have cc: "insert p (temporaryMarks l) - permanentMarks l = toPath h ` set (?stk @ [x])"
  proof -
    have "insert p (temporaryMarks l) - permanentMarks l = insert p (temporaryMarks l - permanentMarks l)"
      using pP by blast
    also have "\<dots> = insert p (toPath h ` set ?stk)" using i by simp
    also have "\<dots> = toPath h ` set (?stk @ [x])" using p by simp
    finally show ?thesis .
  qed
  have g: "\<forall>q \<in> insert p (temporaryMarks l). configFileCache st q \<noteq> None"
    using i c by blast
  have d: "\<forall>i j. i \<le> j \<and> j < length (?stk @ [x]) \<longrightarrow>
         (toPath h ((?stk @ [x]) ! i), toPath h ((?stk @ [x]) ! j)) \<in> (referenceEdges h st)\<^sup>*"
  proof (intro allI impI)
    fix a b assume ab: "a \<le> b \<and> b < length (?stk @ [x])"
    show "(toPath h ((?stk @ [x]) ! a), toPath h ((?stk @ [x]) ! b)) \<in> (referenceEdges h st)\<^sup>*"
    proof (cases "b < length ?stk")
      case True
      with ab i have "(toPath h (?stk ! a), toPath h (?stk ! b)) \<in> (referenceEdges h st)\<^sup>*"
        by blast
      with True ab show ?thesis by (simp add: nth_append)
    next
      case False
      with ab have b: "b = length ?stk" by simp
      show ?thesis
      proof (cases "a = b")
        case True
        then show ?thesis by simp
      next
        case False
        with ab b have al: "a < length ?stk" by simp
        then have ne: "?stk \<noteq> []" by auto
        with pre have edge: "(toPath h (last ?stk), toPath h x) \<in> referenceEdges h st"
          unfolding visitPre_def by blast
        from al ne have "a \<le> length ?stk - 1 \<and> length ?stk - 1 < length ?stk" by (cases ?stk) auto
        with i have "(toPath h (?stk ! a), toPath h (?stk ! (length ?stk - 1))) \<in> (referenceEdges h st)\<^sup>*"
          by blast
        with ne have "(toPath h (?stk ! a), toPath h (last ?stk)) \<in> (referenceEdges h st)\<^sup>*"
          by (simp add: last_conv_nth)
        from this edge have "(toPath h (?stk ! a), toPath h x) \<in> (referenceEdges h st)\<^sup>*"
          by (rule rtrancl_into_rtrancl)
        with al b show ?thesis by (simp add: nth_append)
      qed
    qed
  qed
  have e: "\<forall>j b. j < length (buildOrderAcc l) \<and>
           (toPath h (buildOrderAcc l ! j), b) \<in> referenceEdges h st \<longrightarrow>
         b \<in> insert p (temporaryMarks l) \<and>
         ((\<exists>i<j. toPath h (buildOrderAcc l ! i) = b) \<or>
          (b, toPath h (buildOrderAcc l ! j)) \<in> (referenceEdges h st)\<^sup>*)"
    using i by blast
  from i have b1: "toPath h ` set (buildOrderAcc l) = permanentMarks l"
    and b2: "distinct (map (toPath h) (buildOrderAcc l))" by blast+
  show ?thesis unfolding visitInv_def using a b1 b2 cc g d e by simp
qed

lemma visitInv_pop:
  assumes inv: "visitInv h l st" and stk: "circularityReportStack l = stack0 @ [x]"
    and p: "p = toPath h x" and notin: "p \<notin> toPath h ` set stack0"
    and succ: "\<forall>b. (p, b) \<in> referenceEdges h st \<longrightarrow>
                 b \<in> permanentMarks l \<union> toPath h ` set (stack0 @ [x])"
  shows "visitInv h (l\<lparr>circularityReportStack := butlast (circularityReportStack l),
            permanentMarks := insert p (permanentMarks l),
            buildOrderAcc := buildOrderAcc l @ [x]\<rparr>) st"
proof -
  note i = inv [unfolded visitInv_def]
  note iA = visitInvD(1) [OF inv] and iB = visitInvD(2) [OF inv] and iC = visitInvD(3) [OF inv]
    and iD = visitInvD(4) [OF inv]
  let ?ord = "buildOrderAcc l"
  from iD stk have gray: "temporaryMarks l - permanentMarks l = toPath h ` set (stack0 @ [x])" by simp
  have "p \<in> toPath h ` set (stack0 @ [x])" using p by simp
  with gray have "p \<in> temporaryMarks l - permanentMarks l" by simp
  then have pT: "p \<in> temporaryMarks l" and pP: "p \<notin> permanentMarks l" by simp_all
  have a: "insert p (permanentMarks l) \<subseteq> temporaryMarks l" using iA pT by simp
  have b1: "toPath h ` set (?ord @ [x]) = insert p (permanentMarks l)" using iB p by simp
  have b2: "distinct (map (toPath h) (?ord @ [x]))"
  proof -
    from iB pP have "p \<notin> toPath h ` set ?ord" by simp
    with iC p show ?thesis by simp
  qed
  have cc: "temporaryMarks l - insert p (permanentMarks l) = toPath h ` set (butlast (circularityReportStack l))"
  proof -
    have "temporaryMarks l - insert p (permanentMarks l) = (temporaryMarks l - permanentMarks l) - {p}"
      by blast
    also have "\<dots> = toPath h ` set (stack0 @ [x]) - {p}" using gray by simp
    also have "\<dots> = toPath h ` set stack0" using p notin by simp
    finally show ?thesis using stk by simp
  qed
  note g = visitInvD(5) [OF inv]
  have d: "\<forall>i j. i \<le> j \<and> j < length (butlast (circularityReportStack l)) \<longrightarrow>
         (toPath h (butlast (circularityReportStack l) ! i), toPath h (butlast (circularityReportStack l) ! j))
            \<in> (referenceEdges h st)\<^sup>*"
  proof (intro allI impI)
    fix a b assume ab: "a \<le> b \<and> b < length (butlast (circularityReportStack l))"
    then have "a \<le> b \<and> b < length (circularityReportStack l)" by auto
    with visitInvD(6) [OF inv] have "(toPath h (circularityReportStack l ! a), toPath h (circularityReportStack l ! b))
            \<in> (referenceEdges h st)\<^sup>*" by blast
    with ab show "(toPath h (butlast (circularityReportStack l) ! a), toPath h (butlast (circularityReportStack l) ! b))
            \<in> (referenceEdges h st)\<^sup>*" by (simp add: nth_butlast)
  qed
  have e: "\<forall>j b. j < length (?ord @ [x]) \<and>
           (toPath h ((?ord @ [x]) ! j), b) \<in> referenceEdges h st \<longrightarrow>
         b \<in> temporaryMarks l \<and>
         ((\<exists>i<j. toPath h ((?ord @ [x]) ! i) = b) \<or>
          (b, toPath h ((?ord @ [x]) ! j)) \<in> (referenceEdges h st)\<^sup>*)"
  proof (intro allI impI)
    fix j b assume jb: "j < length (?ord @ [x]) \<and>
           (toPath h ((?ord @ [x]) ! j), b) \<in> referenceEdges h st"
    show "b \<in> temporaryMarks l \<and>
         ((\<exists>i<j. toPath h ((?ord @ [x]) ! i) = b) \<or>
          (b, toPath h ((?ord @ [x]) ! j)) \<in> (referenceEdges h st)\<^sup>*)"
    proof (cases "j < length ?ord")
      case True
      with jb have "(toPath h (?ord ! j), b) \<in> referenceEdges h st" by (simp add: nth_append)
      with True visitInvD(7) [OF inv] have r: "b \<in> temporaryMarks l \<and>
         ((\<exists>i<j. toPath h (?ord ! i) = b) \<or>
          (b, toPath h (?ord ! j)) \<in> (referenceEdges h st)\<^sup>*)" by blast
      have "(\<exists>i<j. toPath h (?ord ! i) = b) \<Longrightarrow> (\<exists>i<j. toPath h ((?ord @ [x]) ! i) = b)"
      proof -
        assume "\<exists>i<j. toPath h (?ord ! i) = b"
        then obtain k where "k < j" "toPath h (?ord ! k) = b" by blast
        with True have "k < j \<and> toPath h ((?ord @ [x]) ! k) = b" by (simp add: nth_append)
        then show ?thesis by blast
      qed
      moreover from True have "(?ord @ [x]) ! j = ?ord ! j" by (simp add: nth_append)
      ultimately show ?thesis using r by auto
    next
      case False
      with jb have j: "j = length ?ord" by simp
      with jb p have "(p, b) \<in> referenceEdges h st" by simp
      with succ have bb: "b \<in> permanentMarks l \<union> toPath h ` set (stack0 @ [x])" by blast
      show ?thesis
      proof (cases "b \<in> permanentMarks l")
        case True
        with iB have "b \<in> toPath h ` set ?ord" by simp
        then obtain y where y: "y \<in> set ?ord" "b = toPath h y" by (rule imageE)
        from y(1) have "\<exists>k<length ?ord. ?ord ! k = y" unfolding in_set_conv_nth .
        then obtain k where k: "k < length ?ord" "?ord ! k = y" by blast
        with j \<open>b = toPath h y\<close> have "k < j \<and> toPath h ((?ord @ [x]) ! k) = b"
          by (simp add: nth_append)
        then have "\<exists>i<j. toPath h ((?ord @ [x]) ! i) = b" by blast
        moreover from True iA have "b \<in> temporaryMarks l" by (rule subsetD [rotated])
        ultimately show ?thesis by simp
      next
        case False
        with bb have bs: "b \<in> toPath h ` set (stack0 @ [x])" by blast
        with gray have "b \<in> temporaryMarks l - permanentMarks l" by simp
        then have bT: "b \<in> temporaryMarks l" by simp
        from bs obtain y where y: "y \<in> set (stack0 @ [x])" "b = toPath h y" by (rule imageE)
        from y(1) have "\<exists>k<length (stack0 @ [x]). (stack0 @ [x]) ! k = y"
          unfolding in_set_conv_nth .
        then obtain k where k: "k < length (stack0 @ [x])" "(stack0 @ [x]) ! k = y"
          by blast
        then have "k \<le> length stack0 \<and> length stack0 < length (circularityReportStack l)"
          using stk by simp
        with visitInvD(6) [OF inv] have "(toPath h (circularityReportStack l ! k), toPath h (circularityReportStack l ! length stack0))
            \<in> (referenceEdges h st)\<^sup>*" by blast
        with stk k \<open>b = toPath h y\<close> p have "(b, p) \<in> (referenceEdges h st)\<^sup>*" by simp
        with j p bT show ?thesis by simp
      qed
    qed
  qed
  show ?thesis unfolding visitInv_def using a b1 b2 cc g d e by simp
qed

lemma visitStepD:
  assumes "visitStep h l st l' st'"
  shows "visitInv h l' st'"
    and "cacheExtends st st'"
    and "temporaryMarks l \<subseteq> temporaryMarks l'"
    and "permanentMarks l \<subseteq> permanentMarks l'"
    and "circularityReportStack l' = circularityReportStack l"
    and "\<exists>c r. st' = st\<lparr>configFileCache := c, hostReports := r\<rparr>"
    and "\<exists>rs. hostReports st' = hostReports st @ rs \<and> list_all isCycleReport rs \<and>
            (rs = [] \<or> (\<exists>p. (p, p) \<in> (referenceEdges h st')\<^sup>+))"
    and "parseablePaths h st' = parseablePaths h st"
  using assms unfolding visitStep_def by simp_all

lemma visitPre_step:
  assumes "visitStep h l st l1 st1" "visitPre h l st y"
  shows "visitPre h l1 st1 y"
proof -
  note stk = visitStepD(5) [OF assms(1)]
  note ext = visitStepD(2) [OF assms(1)]
  show ?thesis
  proof (cases "circularityReportStack l = []")
    case True
    with stk show ?thesis by (simp add: visitPre_def)
  next
    case False
    with assms(2) have "(toPath h (last (circularityReportStack l)), toPath h y) \<in> referenceEdges h st"
      by (simp add: visitPre_def)
    with referenceEdges_mono [OF ext]
    have "(toPath h (last (circularityReportStack l)), toPath h y) \<in> referenceEdges h st1"
      by (rule subsetD)
    with stk show ?thesis by (simp add: visitPre_def)
  qed
qed

lemma forEach_visit_spec:
  assumes step: "\<And>x c l st l' st'. visit n h x c (l, st) = Some (l', st') \<Longrightarrow> visitInv h l st \<Longrightarrow>
      visitPre h l st x \<Longrightarrow>
      visitStep h l st l' st' \<and>
      toPath h x \<in> permanentMarks l' \<union> toPath h ` set (circularityReportStack l)"
  shows "forEachOption (\<lambda>item s. visit n h (f item) (g item) s) items (l, st) = Some (l', st') \<Longrightarrow>
    visitInv h l st \<Longrightarrow> (\<forall>item \<in> set items. visitPre h l st (f item)) \<Longrightarrow>
    visitStep h l st l' st' \<and>
    (\<forall>item \<in> set items.
       toPath h (f item) \<in> permanentMarks l' \<union> toPath h ` set (circularityReportStack l))"
proof (induction items arbitrary: l st)
  case Nil
  then show ?case by (simp add: visitStep_refl)
next
  case (Cons item items)
  from Cons.prems(1) obtain l1 st1 where
    v: "visit n h (f item) (g item) (l, st) = Some (l1, st1)" and
    rest: "forEachOption (\<lambda>item s. visit n h (f item) (g item) s) items (l1, st1) = Some (l', st')"
    by (cases "visit n h (f item) (g item) (l, st)") auto
  from Cons.prems(3) have pre0: "visitPre h l st (f item)" by simp
  from step [OF v Cons.prems(2) pre0] have
    s1: "visitStep h l st l1 st1" and
    m1: "toPath h (f item) \<in> permanentMarks l1 \<union> toPath h ` set (circularityReportStack l)"
    by simp_all
  have pre1: "\<forall>item \<in> set items. visitPre h l1 st1 (f item)"
  proof
    fix i assume "i \<in> set items"
    with Cons.prems(3) have "visitPre h l st (f i)" by simp
    with s1 show "visitPre h l1 st1 (f i)" by (rule visitPre_step)
  qed
  from Cons.IH [OF rest visitStepD(1) [OF s1] pre1] have
    s2: "visitStep h l1 st1 l' st'" and
    m2: "\<forall>item \<in> set items.
       toPath h (f item) \<in> permanentMarks l' \<union> toPath h ` set (circularityReportStack l1)"
    by simp_all
  have st: "visitStep h l st l' st'" using s1 s2 by (rule visitStep_trans)
  have "toPath h (f item) \<in> permanentMarks l' \<union> toPath h ` set (circularityReportStack l)"
    using m1 visitStepD(4) [OF s2] by blast
  moreover have "\<forall>item \<in> set items.
       toPath h (f item) \<in> permanentMarks l' \<union> toPath h ` set (circularityReportStack l)"
    using m2 visitStepD(5) [OF s1] by simp
  ultimately show ?case using st by simp
qed

lemma visit_spec:
  "visit n h x c (l, st) = Some (l', st') \<Longrightarrow> visitInv h l st \<Longrightarrow> visitPre h l st x \<Longrightarrow>
   visitStep h l st l' st' \<and>
   toPath h x \<in> permanentMarks l' \<union> toPath h ` set (circularityReportStack l)"
proof (induction n arbitrary: x c l st l' st')
  case 0
  then show ?case by simp
next
  case (Suc n)
  let ?p = "toPath h x"
  note inv = Suc.prems(2)
  note pre = Suc.prems(3)
  show ?case
  proof (cases "?p \<in> permanentMarks l")
    case True
    with Suc.prems(1) have "l' = l" "st' = st" by simp_all
    with True inv show ?thesis by (simp add: visitStep_refl)
  next
    case notP: False
    show ?thesis
    proof (cases "?p \<in> temporaryMarks l")
      case True
      with notP Suc.prems(1) have l': "l' = l" and
        st': "st' = (if \<not> c then reportStatus
                Project_references_may_not_form_a_circular_graph_Cycle_detected_Colon_0
                [joinWith crlf (circularityReportStack l)] st else st)"
        by (auto split: if_splits)
      from True notP visitInvD(4) [OF inv] have onstack: "?p \<in> toPath h ` set (circularityReportStack l)"
        by blast
      then obtain y where y: "y \<in> set (circularityReportStack l)" "?p = toPath h y" by (rule imageE)
      from y(1) have ne: "circularityReportStack l \<noteq> []" by auto
      from y(1) have "\<exists>k<length (circularityReportStack l). circularityReportStack l ! k = y"
        unfolding in_set_conv_nth .
      then obtain k where k: "k < length (circularityReportStack l)" "circularityReportStack l ! k = y"
        by blast
      with ne have "k \<le> length (circularityReportStack l) - 1 \<and>
          length (circularityReportStack l) - 1 < length (circularityReportStack l)"
        by (cases "circularityReportStack l") auto
      with visitInvD(6) [OF inv] have "(toPath h (circularityReportStack l ! k),
          toPath h (circularityReportStack l ! (length (circularityReportStack l) - 1)))
           \<in> (referenceEdges h st)\<^sup>*" by blast
      with k y ne have "(?p, toPath h (last (circularityReportStack l))) \<in> (referenceEdges h st)\<^sup>*"
        by (simp add: last_conv_nth)
      moreover from pre ne have "(toPath h (last (circularityReportStack l)), ?p) \<in> referenceEdges h st"
        by (simp add: visitPre_def)
      ultimately have cyc: "(?p, ?p) \<in> (referenceEdges h st)\<^sup>+" by (rule rtrancl_into_trancl1)
      have "\<exists>r. st' = st\<lparr>configFileCache := configFileCache st, hostReports := r\<rparr>"
        by (rule exI [of _ "hostReports st'"]) (simp add: st' reportStatus_def)
      then have fr: "\<exists>c r. st' = st\<lparr>configFileCache := c, hostReports := r\<rparr>"
        by (rule exI [of _ "configFileCache st"])
      have ce: "cacheExtends st st'" by (simp add: st' reportStatus_def cacheExtends_refl)
      have e': "referenceEdges h st' = referenceEdges h st" by (simp add: st' reportStatus_def)
      have pp: "parseablePaths h st' = parseablePaths h st" by (simp add: st' reportStatus_def)
      have inv': "visitInv h l st'" using inv by (simp add: st' reportStatus_def)
      from cyc e' have cy': "\<exists>q. (q, q) \<in> (referenceEdges h st')\<^sup>+" by auto
      have "\<exists>rs. hostReports st' = hostReports st @ rs \<and> list_all isCycleReport rs \<and>
            (rs = [] \<or> (\<exists>p. (p, p) \<in> (referenceEdges h st')\<^sup>+))"
      proof (cases c)
        case True
        then have "hostReports st' = hostReports st @ []" by (simp add: st')
        then show ?thesis by (intro exI [of _ "[]"]) simp
      next
        case False
        then have "hostReports st' = hostReports st @ [ReportStatus
                Project_references_may_not_form_a_circular_graph_Cycle_detected_Colon_0
                [joinWith crlf (circularityReportStack l)]]" by (simp add: st' reportStatus_def)
        with cy' show ?thesis by (intro exI [of _ "[ReportStatus
                Project_references_may_not_form_a_circular_graph_Cycle_detected_Colon_0
                [joinWith crlf (circularityReportStack l)]]"]) simp
      qed
      with inv' ce fr pp l' have "visitStep h l st l' st'" by (simp add: visitStep_def)
      with onstack show ?thesis by simp
    next
      case notT: False
      obtain parsed st1 where parse: "parseConfigFile h x ?p st = (parsed, st1)"
        by (cases "parseConfigFile h x ?p st")
      let ?l1 = "l\<lparr>temporaryMarks := insert ?p (temporaryMarks l),
                     circularityReportStack := circularityReportStack l @ [x]\<rparr>"
      let ?f = "\<lambda>ref. resolveProjectName h (path ref)"
      let ?g = "\<lambda>ref. c \<or> circular ref"
      let ?loop = "(case parsed of
                    None \<Rightarrow> Some (?l1, st1)
                  | Some cfg \<Rightarrow>
                      (case projectReferences cfg of
                         None \<Rightarrow> Some (?l1, st1)
                       | Some refs \<Rightarrow>
                           forEachOption (\<lambda>ref s. visit n h (?f ref) (?g ref) s) refs (?l1, st1)))"
      from Suc.prems(1) notP notT parse have
        "(case ?loop of None \<Rightarrow> None
            | Some (l2, st2) \<Rightarrow>
                Some (l2\<lparr>circularityReportStack := butlast (circularityReportStack l2),
                         permanentMarks := insert ?p (permanentMarks l2),
                         buildOrderAcc := buildOrderAcc l2 @ [x]\<rparr>, st2)) = Some (l', st')"
        by (simp add: Let_def)
      then obtain l2 st2 where loop: "?loop = Some (l2, st2)" and
        l': "l' = l2\<lparr>circularityReportStack := butlast (circularityReportStack l2),
                         permanentMarks := insert ?p (permanentMarks l2),
                         buildOrderAcc := buildOrderAcc l2 @ [x]\<rparr>" and st': "st' = st2"
        by (cases ?loop) auto
      note ext1 = parseConfigFile_cases(2) [OF parse]
      from parseConfigFile_cases(3) [OF parse] obtain e where
        e: "configFileCache st1 ?p = Some e" "parsed = (case e of Inr cfg \<Rightarrow> Some cfg | Inl d \<Rightarrow> None)"
        by blast
      from parseConfigFile_cases(1) [OF parse] obtain c1 where
        st1: "st1 = st\<lparr>configFileCache := c1\<rparr>" by blast
      have pre1: "visitPre h l st1 x"
      proof (cases "circularityReportStack l = []")
        case True
        then show ?thesis by (simp add: visitPre_def)
      next
        case False
        with pre have "(toPath h (last (circularityReportStack l)), ?p) \<in> referenceEdges h st"
          by (simp add: visitPre_def)
        with referenceEdges_mono [OF ext1]
        have "(toPath h (last (circularityReportStack l)), ?p) \<in> referenceEdges h st1"
          by (rule subsetD)
        then show ?thesis by (simp add: visitPre_def)
      qed
      from e have c1: "configFileCache st1 ?p \<noteq> None" by simp
      have inv1: "visitInv h ?l1 st1"
        by (rule visitInv_push [OF visitInv_extends [OF inv ext1] refl notT pre1 c1])
      have main: "visitStep h ?l1 st1 l2 st2 \<and>
          (\<forall>ref \<in> set (referencesOf st1 ?p).
             toPath h (?f ref) \<in> permanentMarks l2 \<union> toPath h ` set (circularityReportStack l @ [x]))"
      proof (cases parsed)
        case None
        with loop have "l2 = ?l1" "st2 = st1" by simp_all
        moreover from None e have "referencesOf st1 ?p = []"
          by (cases e) (simp_all add: referencesOf_def)
        ultimately show ?thesis using inv1 by (simp add: visitStep_refl)
      next
        case (Some cfg)
        with e have ce: "configFileCache st1 ?p = Some (Inr cfg)" by (cases e) simp_all
        show ?thesis
        proof (cases "projectReferences cfg")
          case None
          with Some loop have "l2 = ?l1" "st2 = st1" by simp_all
          moreover from None ce have "referencesOf st1 ?p = []" by (simp add: referencesOf_def)
          ultimately show ?thesis using inv1 by (simp add: visitStep_refl)
        next
          case (Some refs)
          with \<open>parsed = Some cfg\<close> loop have
            fe: "forEachOption (\<lambda>ref s. visit n h (?f ref) (?g ref) s) refs (?l1, st1) = Some (l2, st2)"
            by simp
          from Some ce have ro: "referencesOf st1 ?p = refs" by (simp add: referencesOf_def)
          have pres: "\<forall>ref \<in> set refs. visitPre h ?l1 st1 (?f ref)"
          proof
            fix ref assume "ref \<in> set refs"
            with ro have "(?p, toPath h (?f ref)) \<in> referenceEdges h st1"
              unfolding referenceEdges_def by blast
            then show "visitPre h ?l1 st1 (?f ref)" by (simp add: visitPre_def)
          qed
          from forEach_visit_spec [where f = ?f and g = ?g, OF Suc.IH fe inv1 pres] ro
          show ?thesis by simp
        qed
      qed
      then have s12: "visitStep h ?l1 st1 l2 st2" and
        succ0: "\<forall>ref \<in> set (referencesOf st1 ?p).
             toPath h (?f ref) \<in> permanentMarks l2 \<union> toPath h ` set (circularityReportStack l @ [x])"
        by simp_all
      note inv2 = visitStepD(1) [OF s12]
      note ext2 = visitStepD(2) [OF s12]
      have stk2: "circularityReportStack l2 = circularityReportStack l @ [x]"
        using visitStepD(5) [OF s12] by simp
      have notin: "?p \<notin> toPath h ` set (circularityReportStack l)"
        using notT visitInvD(4) [OF inv] by blast
      have succ: "\<forall>b. (?p, b) \<in> referenceEdges h st2 \<longrightarrow>
                 b \<in> permanentMarks l2 \<union> toPath h ` set (circularityReportStack l @ [x])"
      proof (intro allI impI)
        fix b assume "(?p, b) \<in> referenceEdges h st2"
        with referenceEdges_stable [OF ext2 c1] have "(?p, b) \<in> referenceEdges h st1" by simp
        then obtain ref where "ref \<in> set (referencesOf st1 ?p)" "b = toPath h (?f ref)"
          unfolding referenceEdges_def by blast
        with succ0 show "b \<in> permanentMarks l2 \<union> toPath h ` set (circularityReportStack l @ [x])"
          by blast
      qed
      have inv3: "visitInv h l' st'"
        unfolding l' st' by (rule visitInv_pop [OF inv2 stk2 refl notin succ])
      have ext: "cacheExtends st st'" unfolding st' using ext1 ext2 by (rule cacheExtends_trans)
      have T: "temporaryMarks l \<subseteq> temporaryMarks l'"
        using visitStepD(3) [OF s12] by (simp add: l')
      have P: "permanentMarks l \<subseteq> permanentMarks l'"
        using visitStepD(4) [OF s12] by (auto simp: l')
      have S: "circularityReportStack l' = circularityReportStack l"
        using stk2 by (simp add: l')
      from visitStepD(6) [OF s12] obtain c2 r2 where
        "st2 = st1\<lparr>configFileCache := c2, hostReports := r2\<rparr>" by blast
      with st1 have "st' = st\<lparr>configFileCache := c2, hostReports := r2\<rparr>" by (simp add: st')
      then have fr: "\<exists>c r. st' = st\<lparr>configFileCache := c, hostReports := r\<rparr>" by blast
      have "hostReports st1 = hostReports st" using st1 by simp
      with visitStepD(7) [OF s12]
      have rep: "\<exists>rs. hostReports st' = hostReports st @ rs \<and> list_all isCycleReport rs \<and>
            (rs = [] \<or> (\<exists>p. (p, p) \<in> (referenceEdges h st')\<^sup>+))"
        by (simp add: st')
      have pp: "parseablePaths h st' = parseablePaths h st"
        using visitStepD(8) [OF s12] parseConfigFile_parseable [OF parse] by (simp add: st')
      have "?p \<in> permanentMarks l'" by (simp add: l')
      with inv3 ext T P S fr rep pp show ?thesis by (simp add: visitStep_def)
    qed
  qed
qed

lemma forEach_visit_total:
  assumes tot: "\<And>x c l st. finite (parseablePaths h st) \<Longrightarrow>
      card (parseablePaths h st - temporaryMarks l) < n \<Longrightarrow> visitInv h l st \<Longrightarrow>
      visitPre h l st x \<Longrightarrow> \<exists>s'. visit n h x c (l, st) = Some s'"
  shows "finite (parseablePaths h st) \<Longrightarrow>
    card (parseablePaths h st - temporaryMarks l) < n \<Longrightarrow> visitInv h l st \<Longrightarrow>
    (\<forall>item \<in> set items. visitPre h l st (f item)) \<Longrightarrow>
    \<exists>s'. forEachOption (\<lambda>item s. visit n h (f item) (g item) s) items (l, st) = Some s'"
proof (induction items arbitrary: l st)
  case Nil
  then show ?case by simp
next
  case (Cons item items)
  from Cons.prems(4) have pre0: "visitPre h l st (f item)" by simp
  from tot [OF Cons.prems(1) Cons.prems(2) Cons.prems(3) pre0, of "g item"]
  obtain l1 st1 where v: "visit n h (f item) (g item) (l, st) = Some (l1, st1)" by force
  from visit_spec [OF v Cons.prems(3) pre0] have s1: "visitStep h l st l1 st1" by simp
  note pp = visitStepD(8) [OF s1]
  have fin1: "finite (parseablePaths h st1)" using Cons.prems(1) pp by simp
  have "parseablePaths h st1 - temporaryMarks l1 \<subseteq> parseablePaths h st - temporaryMarks l"
    using pp visitStepD(3) [OF s1] by blast
  then have "card (parseablePaths h st1 - temporaryMarks l1) \<le> card (parseablePaths h st - temporaryMarks l)"
    using Cons.prems(1) by (intro card_mono) simp_all
  with Cons.prems(2) have card1: "card (parseablePaths h st1 - temporaryMarks l1) < n" by simp
  have pre1: "\<forall>item \<in> set items. visitPre h l1 st1 (f item)"
  proof
    fix i assume "i \<in> set items"
    with Cons.prems(4) have "visitPre h l st (f i)" by simp
    with s1 show "visitPre h l1 st1 (f i)" by (rule visitPre_step)
  qed
  from Cons.IH [OF fin1 card1 visitStepD(1) [OF s1] pre1] v show ?case by simp
qed

lemma visit_total:
  "finite (parseablePaths h st) \<Longrightarrow> card (parseablePaths h st - temporaryMarks l) < n \<Longrightarrow>
   visitInv h l st \<Longrightarrow> visitPre h l st x \<Longrightarrow> \<exists>s'. visit n h x c (l, st) = Some s'"
proof (induction n arbitrary: x c l st)
  case 0
  then show ?case by simp
next
  case (Suc n)
  let ?p = "toPath h x"
  note fin = Suc.prems(1)
  note inv = Suc.prems(3)
  note pre = Suc.prems(4)
  show ?case
  proof (cases "?p \<in> temporaryMarks l")
    case True
    then show ?thesis by (simp add: Let_def)
  next
    case notT: False
    with visitInvD(1) [OF inv] have notP: "?p \<notin> permanentMarks l" by blast
    obtain parsed st1 where parse: "parseConfigFile h x ?p st = (parsed, st1)"
      by (cases "parseConfigFile h x ?p st")
    let ?l1 = "l\<lparr>temporaryMarks := insert ?p (temporaryMarks l),
                     circularityReportStack := circularityReportStack l @ [x]\<rparr>"
    let ?f = "\<lambda>ref. resolveProjectName h (path ref)"
    let ?g = "\<lambda>ref. c \<or> circular ref"
    let ?loop = "(case parsed of
                    None \<Rightarrow> Some (?l1, st1)
                  | Some cfg \<Rightarrow>
                      (case projectReferences cfg of
                         None \<Rightarrow> Some (?l1, st1)
                       | Some refs \<Rightarrow>
                           forEachOption (\<lambda>ref s. visit n h (?f ref) (?g ref) s) refs (?l1, st1)))"
    have v: "visit (Suc n) h x c (l, st) =
        (case ?loop of None \<Rightarrow> None
            | Some (l2, st2) \<Rightarrow>
                Some (l2\<lparr>circularityReportStack := butlast (circularityReportStack l2),
                         permanentMarks := insert ?p (permanentMarks l2),
                         buildOrderAcc := buildOrderAcc l2 @ [x]\<rparr>, st2))"
      using notP notT parse by (simp add: Let_def)
    have "\<exists>s2. ?loop = Some s2"
    proof (cases parsed)
      case None
      then show ?thesis by simp
    next
      case (Some cfg)
      show ?thesis
      proof (cases "projectReferences cfg")
        case None
        with Some show ?thesis by simp
      next
        case refs: (Some refs)
        note ext1 = parseConfigFile_cases(2) [OF parse]
        from parseConfigFile_cases(3) [OF parse] obtain e where
          e: "configFileCache st1 ?p = Some e"
            "parsed = (case e of Inr cfg \<Rightarrow> Some cfg | Inl d \<Rightarrow> None)"
          by blast
        with Some have ce: "configFileCache st1 ?p = Some (Inr cfg)" by (cases e) simp_all
        then have c1: "configFileCache st1 ?p \<noteq> None" by simp
        have pre1: "visitPre h l st1 x"
        proof (cases "circularityReportStack l = []")
          case True
          then show ?thesis by (simp add: visitPre_def)
        next
          case False
          with pre have "(toPath h (last (circularityReportStack l)), ?p) \<in> referenceEdges h st"
            by (simp add: visitPre_def)
          with referenceEdges_mono [OF ext1]
          have "(toPath h (last (circularityReportStack l)), ?p) \<in> referenceEdges h st1"
            by (rule subsetD)
          then show ?thesis by (simp add: visitPre_def)
        qed
        have inv1: "visitInv h ?l1 st1"
          by (rule visitInv_push [OF visitInv_extends [OF inv ext1] refl notT pre1 c1])
        note pp = parseConfigFile_parseable [OF parse]
        have fin1: "finite (parseablePaths h st1)" using fin pp by simp
        from ce have "?p \<in> parseablePaths h st1" by (simp add: parseablePaths_def)
        with pp notT have mem: "?p \<in> parseablePaths h st - temporaryMarks l" by simp
        have "parseablePaths h st1 - temporaryMarks ?l1 = (parseablePaths h st - temporaryMarks l) - {?p}"
          using pp by auto
        then have "card (parseablePaths h st1 - temporaryMarks ?l1)
            = card (parseablePaths h st - temporaryMarks l) - 1"
          using mem by (simp add: card_Diff_singleton)
        moreover from mem fin have "card (parseablePaths h st - temporaryMarks l) > 0"
          by (auto simp: card_gt_0_iff)
        ultimately have card1: "card (parseablePaths h st1 - temporaryMarks ?l1) < n"
          using Suc.prems(2) by simp
        from refs ce have ro: "referencesOf st1 ?p = refs" by (simp add: referencesOf_def)
        have pres: "\<forall>ref \<in> set refs. visitPre h ?l1 st1 (?f ref)"
        proof
          fix ref assume "ref \<in> set refs"
          with ro have "(?p, toPath h (?f ref)) \<in> referenceEdges h st1"
            unfolding referenceEdges_def by blast
          then show "visitPre h ?l1 st1 (?f ref)" by (simp add: visitPre_def)
        qed
        from forEach_visit_total [where f = ?f and g = ?g, OF Suc.IH fin1 card1 inv1 pres]
        show ?thesis using Some refs by simp
      qed
    qed
    then obtain l2 st2 where "?loop = Some (l2, st2)" by force
    with v show ?thesis by simp
  qed
qed

lemma visitInv_initial: "visitInv h initialLocals st"
  by (simp add: visitInv_def initialLocals_def)

lemma createBuildOrder_spec:
  assumes "createBuildOrder fuel h roots st = Some (order, st')"
  shows "\<exists>l'. visitStep h initialLocals st l' st' \<and> buildOrderAcc l' = order"
proof -
  from assms obtain l' where
    fe: "forEachOption (\<lambda>root s. visit fuel h root False s) roots (initialLocals, st) = Some (l', st')"
    and o: "order = buildOrderAcc l'"
    unfolding createBuildOrder_def by (auto split: option.splits)
  have pres: "\<forall>root \<in> set roots. visitPre h initialLocals st root"
    by (simp add: visitPre_def initialLocals_def)
  from forEach_visit_spec [where f = "\<lambda>root. root" and g = "\<lambda>root. False", OF visit_spec fe
      visitInv_initial pres]
  have "visitStep h initialLocals st l' st'" by simp
  with o show ?thesis by blast
qed

lemma createBuildOrder_total:
  assumes "finite (parseablePaths h st)" "card (parseablePaths h st) < fuel"
  shows "\<exists>r. createBuildOrder fuel h roots st = Some r"
proof -
  have pres: "\<forall>root \<in> set roots. visitPre h initialLocals st root"
    by (simp add: visitPre_def initialLocals_def)
  have c: "card (parseablePaths h st - temporaryMarks initialLocals) < fuel"
    using assms(2) by (simp add: initialLocals_def)
  from forEach_visit_total [where f = "\<lambda>root. root" and g = "\<lambda>root. False", OF visit_total
      assms(1) c visitInv_initial pres]
  obtain l' st' where
    "forEachOption (\<lambda>root s. visit fuel h root False s) roots (initialLocals, st) = Some (l', st')"
    by force
  then show ?thesis unfolding createBuildOrder_def by simp
qed



lemma exampleHost_parseable:
  "parseablePaths (exampleHost configs) (exampleState opts fs) \<subseteq> fst ` set configs"
proof
  fix p assume "p \<in> parseablePaths (exampleHost configs) (exampleState opts fs)"
  then obtain cfg where "(case map_of configs p of Some cfg \<Rightarrow> Inr cfg
      | None \<Rightarrow> Inl (''cannot read '' @ p)) = (Inr cfg :: ConfigFileCacheEntry)"
    by (auto simp: parseablePaths_def exampleHost_def exampleState_def createSolutionBuilderState_def)
  then have "map_of configs p \<noteq> None" by (cases "map_of configs p") simp_all
  then show "p \<in> fst ` set configs" by (simp add: map_of_eq_None_iff)
qed

lemma exampleHost_finite:
  "finite (parseablePaths (exampleHost configs) (exampleState opts fs))"
  by (rule finite_subset [OF exampleHost_parseable]) simp

lemma exampleHost_card:
  "card (parseablePaths (exampleHost configs) (exampleState opts fs)) \<le> length configs"
proof -
  have "card (parseablePaths (exampleHost configs) (exampleState opts fs)) \<le> card (fst ` set configs)"
    by (rule card_mono [OF _ exampleHost_parseable]) simp
  also have "\<dots> \<le> card (set configs)" by (rule card_image_le) simp
  also have "\<dots> \<le> length configs" by (rule card_length)
  finally show ?thesis .
qed




subsection \<open>The up-to-date evaluator\<close>

lemma parseConfigFile_projectStatus:
  assumes "parseConfigFile h n p st = (r, st1)"
  shows "projectStatus st1 = projectStatus st"
proof -
  from parseConfigFile_cases(1) [OF assms] obtain c where "st1 = st\<lparr>configFileCache := c\<rparr>" by blast
  then show ?thesis by simp
qed

lemma upstreamLoop_not_computing:
  "upstreamLoop ev h sc refs us st = Some (Inl s, st') \<Longrightarrow> s \<noteq> ComputingUpstream"
proof (induction refs arbitrary: us st)
  case Nil
  then show ?case by simp
next
  case (Cons ref refs)
  obtain r st1 where e: "evaluateReference ev h ref st = Some (r, st1)"
    using Cons.prems by (cases "evaluateReference ev h ref st") auto
  show ?case
  proof (cases r)
    case (UpToDate info)
    with e Cons.prems Cons.IH show ?thesis
      by (auto simp: Let_def split: if_splits)
  next
    case ComputingUpstream
    with e Cons.prems Cons.IH show ?thesis by (auto simp: Let_def)
  qed (use e Cons.prems in \<open>auto simp: Let_def\<close>)
qed

lemma firstDefined_check:
  "firstDefined (\<lambda>configFile. checkConfigFileUpToDateStatus h w configFile t n) xs = Some s \<Longrightarrow>
   s \<noteq> ComputingUpstream"
  by (induction xs) (auto simp: checkConfigFileUpToDateStatus_def Let_def split: option.splits if_splits)

lemma checkConfigFileUpToDateStatus_not_computing:
  "checkConfigFileUpToDateStatus h w configFile t n = Some s \<Longrightarrow> s \<noteq> ComputingUpstream"
  by (auto simp: checkConfigFileUpToDateStatus_def Let_def split: if_splits)

lemma statusAfterUpstream_not_computing:
  "fst (statusAfterUpstream h project p inName inTime sc us st) \<noteq> ComputingUpstream"
  by (auto simp: statusAfterUpstream_def Let_def
      dest: firstDefined_check checkConfigFileUpToDateStatus_not_computing
      split: option.splits if_splits)

lemma statusAfterUpstream_projectStatus:
  "projectStatus (snd (statusAfterUpstream h project p inName inTime sc us st)) = projectStatus st"
  by (auto simp: statusAfterUpstream_def Let_def split: option.splits if_splits)

lemma worker_not_computing:
  assumes "getUpToDateStatusWorker ev h project p st = Some (s, st')"
  shows "s \<noteq> ComputingUpstream"
proof (cases "newestInput h (world st) (fileNames project) (None, minimumDate)")
  case (Inl f)
  with assms show ?thesis by (auto simp: getUpToDateStatusWorker_def)
next
  case (Inr acc)
  obtain inName inTime where acc: "acc = (inName, inTime)" by (cases acc)
  show ?thesis
  proof (cases "fileNames project = [] \<and> \<not> canJsonReportNoInutFiles h project")
    case True
    with assms Inr acc show ?thesis by (auto simp: getUpToDateStatusWorker_def)
  next
    case False
    let ?sc = "outputsLoop h (world st) inTime (getAllProjectOutputs h project) initialScan"
    let ?loop = "(case projectReferences project of
                        None \<Rightarrow> Some (Inr initialUpstream, st)
                      | Some refs \<Rightarrow>
                          upstreamLoop ev h ?sc refs initialUpstream
                            (st\<lparr>projectStatus :=
                                  (projectStatus st)(p \<mapsto> ComputingUpstream)\<rparr>))"
    from assms Inr acc False have w: "(case ?loop of
                  None \<Rightarrow> None
                | Some (Inl status, st1) \<Rightarrow> Some (status, st1)
                | Some (Inr us, st1) \<Rightarrow>
                    Some (statusAfterUpstream h project p inName inTime ?sc us st1)) = Some (s, st')"
      by (simp add: getUpToDateStatusWorker_def Let_def)
    then obtain res st1 where l: "?loop = Some (res, st1)" by (cases ?loop) auto
    show ?thesis
    proof (cases res)
      case (Inl status)
      with w l have "s = status" by simp
      moreover from l Inl have "status \<noteq> ComputingUpstream"
        by (cases "projectReferences project") (auto dest: upstreamLoop_not_computing)
      ultimately show ?thesis by simp
    next
      case (Inr us)
      with w l have "s = fst (statusAfterUpstream h project p inName inTime ?sc us st1)"
        by (cases "statusAfterUpstream h project p inName inTime ?sc us st1") simp
      then show ?thesis by (simp add: statusAfterUpstream_not_computing)
    qed
  qed
qed

lemma evalStepD:
  assumes "evalStep h st st'"
  shows "computing st' \<subseteq> computing st"
    and "dom (projectStatus st) \<subseteq> dom (projectStatus st')"
    and "parseablePaths h st' = parseablePaths h st"
    and "cacheExtends st st'"
    and "\<exists>c ps b. st' = st\<lparr>configFileCache := c, projectStatus := ps, buildInfoChecked := b\<rparr>"
  using assms unfolding evalStep_def by simp_all

lemma evalStep_refl: "evalStep h st st"
proof -
  have "\<exists>b. st = st\<lparr>configFileCache := configFileCache st, projectStatus := projectStatus st,
      buildInfoChecked := b\<rparr>"
    by (rule exI [of _ "buildInfoChecked st"]) simp
  then have "\<exists>c ps b. st = st\<lparr>configFileCache := c, projectStatus := ps, buildInfoChecked := b\<rparr>"
    by blast
  then show ?thesis by (simp add: evalStep_def cacheExtends_refl)
qed

lemma evalStep_trans:
  assumes a: "evalStep h st st1" and b: "evalStep h st1 st2"
  shows "evalStep h st st2"
proof -
  from evalStepD(5) [OF a] obtain c1 ps1 b1 where
    s1: "st1 = st\<lparr>configFileCache := c1, projectStatus := ps1, buildInfoChecked := b1\<rparr>" by blast
  from evalStepD(5) [OF b] obtain c2 ps2 b2 where
    s2: "st2 = st1\<lparr>configFileCache := c2, projectStatus := ps2, buildInfoChecked := b2\<rparr>" by blast
  from s1 s2 have "st2 = st\<lparr>configFileCache := c2, projectStatus := ps2, buildInfoChecked := b2\<rparr>"
    by simp
  then have fr: "\<exists>c ps b. st2 = st\<lparr>configFileCache := c, projectStatus := ps, buildInfoChecked := b\<rparr>"
    by blast
  have "computing st2 \<subseteq> computing st" using evalStepD(1) [OF a] evalStepD(1) [OF b] by simp
  moreover have "dom (projectStatus st) \<subseteq> dom (projectStatus st2)"
    using evalStepD(2) [OF a] evalStepD(2) [OF b] by simp
  moreover have "parseablePaths h st2 = parseablePaths h st"
    using evalStepD(3) [OF a] evalStepD(3) [OF b] by simp
  moreover have "cacheExtends st st2"
    using evalStepD(4) [OF a] evalStepD(4) [OF b] by (rule cacheExtends_trans)
  ultimately show ?thesis using fr by (simp add: evalStep_def)
qed

lemma evalStep_parse:
  assumes "parseConfigFile h n (toPath h n) st = (r, st1)"
  shows "evalStep h st st1"
proof -
  from parseConfigFile_cases(1) [OF assms] obtain c where s1: "st1 = st\<lparr>configFileCache := c\<rparr>"
    by blast
  then have "st1 = st\<lparr>configFileCache := c, projectStatus := projectStatus st,
      buildInfoChecked := buildInfoChecked st\<rparr>" by simp
  then have "\<exists>c ps b. st1 = st\<lparr>configFileCache := c, projectStatus := ps, buildInfoChecked := b\<rparr>"
    by blast
  moreover from s1 have "projectStatus st1 = projectStatus st" by simp
  ultimately show ?thesis
    using parseConfigFile_parseable [OF assms] parseConfigFile_cases(2) [OF assms]
    by (simp add: evalStep_def computing_def)
qed

lemma evaluateReference_step:
  assumes step: "\<And>parsed q s r s'. ev parsed q s = Some (r, s') \<Longrightarrow> evalStep h s s'"
    and e: "evaluateReference ev h ref st = Some (r, st')"
  shows "evalStep h st st'"
proof -
  let ?n = "resolveProjectReferencePath h ref"
  obtain parsed st1 where p: "parseConfigFile h ?n (toPath h ?n) st = (parsed, st1)"
    by (cases "parseConfigFile h ?n (toPath h ?n) st")
  with e have "ev parsed (toPath h ?n) st1 = Some (r, st')"
    by (simp add: evaluateReference_def Let_def)
  from evalStep_parse [OF p] step [OF this] show ?thesis by (rule evalStep_trans)
qed

lemma upstreamLoop_step:
  assumes step: "\<And>parsed q s r s'. ev parsed q s = Some (r, s') \<Longrightarrow> evalStep h s s'"
  shows "upstreamLoop ev h sc refs us st = Some (res, st') \<Longrightarrow> evalStep h st st'"
proof (induction refs arbitrary: us st)
  case Nil
  then show ?case by (simp add: evalStep_refl)
next
  case (Cons ref refs)
  obtain r st1 where e: "evaluateReference ev h ref st = Some (r, st1)"
    using Cons.prems by (cases "evaluateReference ev h ref st") auto
  note s1 = evaluateReference_step [OF step e]
  have "st' = st1 \<or> (\<exists>us1. upstreamLoop ev h sc refs us1 st1 = Some (res, st'))"
    using e Cons.prems by (cases r) (auto simp: Let_def split: if_splits)
  then show ?case
  proof
    assume "st' = st1"
    with s1 show ?thesis by simp
  next
    assume "\<exists>us1. upstreamLoop ev h sc refs us1 st1 = Some (res, st')"
    then obtain us1 where "upstreamLoop ev h sc refs us1 st1 = Some (res, st')" by blast
    from s1 Cons.IH [OF this] show ?thesis by (rule evalStep_trans)
  qed
qed

lemma statusAfterUpstream_step:
  "evalStep h st (snd (statusAfterUpstream h project p inName inTime sc us st))"
proof -
  let ?st' = "snd (statusAfterUpstream h project p inName inTime sc us st)"
  have "?st' = st \<or> ?st' = st\<lparr>buildInfoChecked := insert p (buildInfoChecked st)\<rparr>"
    by (auto simp: statusAfterUpstream_def Let_def split: option.splits if_splits)
  then show ?thesis
  proof
    assume "?st' = st"
    then show ?thesis by (simp add: evalStep_refl)
  next
    assume a: "?st' = st\<lparr>buildInfoChecked := insert p (buildInfoChecked st)\<rparr>"
    have "\<exists>b. ?st' = st\<lparr>configFileCache := configFileCache st, projectStatus := projectStatus st,
        buildInfoChecked := b\<rparr>"
      by (rule exI [of _ "insert p (buildInfoChecked st)"]) (simp add: a)
    then have "\<exists>c ps b. ?st' = st\<lparr>configFileCache := c, projectStatus := ps, buildInfoChecked := b\<rparr>"
      by blast
    then show ?thesis
      unfolding evalStep_def by (simp add: a computing_def parseablePaths_def cacheExtends_def)
  qed
qed

lemma worker_step:
  assumes step: "\<And>parsed q s r s'. ev parsed q s = Some (r, s') \<Longrightarrow> evalStep h s s'"
    and w: "getUpToDateStatusWorker ev h project p st = Some (s, st')"
  shows "evalStep h st st' \<or>
         evalStep h (st\<lparr>projectStatus := (projectStatus st)(p \<mapsto> ComputingUpstream)\<rparr>) st'"
proof (cases "newestInput h (world st) (fileNames project) (None, minimumDate)")
  case (Inl f)
  with w have "st' = st" by (auto simp: getUpToDateStatusWorker_def)
  then show ?thesis by (simp add: evalStep_refl)
next
  case (Inr acc)
  obtain inName inTime where acc: "acc = (inName, inTime)" by (cases acc)
  show ?thesis
  proof (cases "fileNames project = [] \<and> \<not> canJsonReportNoInutFiles h project")
    case True
    with w Inr acc have "st' = st" by (auto simp: getUpToDateStatusWorker_def)
    then show ?thesis by (simp add: evalStep_refl)
  next
    case False
    let ?sc = "outputsLoop h (world st) inTime (getAllProjectOutputs h project) initialScan"
    let ?st0 = "st\<lparr>projectStatus := (projectStatus st)(p \<mapsto> ComputingUpstream)\<rparr>"
    let ?loop = "(case projectReferences project of
                        None \<Rightarrow> Some (Inr initialUpstream, st)
                      | Some refs \<Rightarrow> upstreamLoop ev h ?sc refs initialUpstream ?st0)"
    from w Inr acc False have w': "(case ?loop of
                  None \<Rightarrow> None
                | Some (Inl status, st1) \<Rightarrow> Some (status, st1)
                | Some (Inr us, st1) \<Rightarrow>
                    Some (statusAfterUpstream h project p inName inTime ?sc us st1)) = Some (s, st')"
      by (simp add: getUpToDateStatusWorker_def Let_def)
    then obtain res st1 where l: "?loop = Some (res, st1)" by (cases ?loop) auto
    have l1: "evalStep h st st1 \<or> evalStep h ?st0 st1"
    proof (cases "projectReferences project")
      case None
      with l have "st1 = st" by simp
      then show ?thesis by (simp add: evalStep_refl)
    next
      case (Some refs)
      with l have "upstreamLoop ev h ?sc refs initialUpstream ?st0 = Some (res, st1)" by simp
      from upstreamLoop_step [OF step this] show ?thesis by simp
    qed
    have l2: "evalStep h st1 st'"
    proof (cases res)
      case (Inl status)
      with w' l have "st' = st1" by simp
      then show ?thesis by (simp add: evalStep_refl)
    next
      case (Inr us)
      with w' l have "st' = snd (statusAfterUpstream h project p inName inTime ?sc us st1)"
        by (cases "statusAfterUpstream h project p inName inTime ?sc us st1") simp
      then show ?thesis by (simp add: statusAfterUpstream_step)
    qed
    from l1 l2 show ?thesis using evalStep_trans by blast
  qed
qed

lemma evalStep_marker:
  assumes n: "projectStatus st p = None"
    and e: "evalStep h st st' \<or>
         evalStep h (st\<lparr>projectStatus := (projectStatus st)(p \<mapsto> ComputingUpstream)\<rparr>) st'"
    and a: "actual \<noteq> ComputingUpstream"
  shows "evalStep h st (st'\<lparr>projectStatus := (projectStatus st')(p \<mapsto> actual)\<rparr>)"
proof -
  let ?st0 = "st\<lparr>projectStatus := (projectStatus st)(p \<mapsto> ComputingUpstream)\<rparr>"
  let ?st2 = "st'\<lparr>projectStatus := (projectStatus st')(p \<mapsto> actual)\<rparr>"
  have c: "computing st' \<subseteq> insert p (computing st)"
  proof -
    from e show ?thesis
    proof
      assume "evalStep h st st'"
      from evalStepD(1) [OF this] show ?thesis by blast
    next
      assume "evalStep h ?st0 st'"
      from evalStepD(1) [OF this] have "computing st' \<subseteq> computing ?st0" .
      also have "computing ?st0 \<subseteq> insert p (computing st)" by (auto simp: computing_def)
      finally show ?thesis .
    qed
  qed
  have c2: "computing ?st2 \<subseteq> computing st"
  proof
    fix q assume q: "q \<in> computing ?st2"
    with a have "q \<noteq> p" by (auto simp: computing_def)
    with q have "q \<in> computing st'" by (simp add: computing_def)
    with c \<open>q \<noteq> p\<close> show "q \<in> computing st" by blast
  qed
  have d: "dom (projectStatus st) \<subseteq> dom (projectStatus st')"
  proof -
    from e show ?thesis
    proof
      assume "evalStep h st st'"
      from evalStepD(2) [OF this] show ?thesis .
    next
      assume "evalStep h ?st0 st'"
      from evalStepD(2) [OF this] show ?thesis by auto
    qed
  qed
  then have d2: "dom (projectStatus st) \<subseteq> dom (projectStatus ?st2)" by auto
  have pp: "parseablePaths h st' = parseablePaths h st"
  proof -
    from e show ?thesis
    proof
      assume "evalStep h st st'"
      from evalStepD(3) [OF this] show ?thesis .
    next
      assume "evalStep h ?st0 st'"
      from evalStepD(3) [OF this] show ?thesis by (simp add: parseablePaths_def)
    qed
  qed
  then have pp2: "parseablePaths h ?st2 = parseablePaths h st" by (simp add: parseablePaths_def)
  have ce: "cacheExtends st st'"
  proof -
    from e show ?thesis
    proof
      assume "evalStep h st st'"
      from evalStepD(4) [OF this] show ?thesis .
    next
      assume "evalStep h ?st0 st'"
      from evalStepD(4) [OF this] show ?thesis by (simp add: cacheExtends_def)
    qed
  qed
  then have ce2: "cacheExtends st ?st2" by (simp add: cacheExtends_def)
  have "\<exists>c ps b. st' = st\<lparr>configFileCache := c, projectStatus := ps, buildInfoChecked := b\<rparr>"
  proof -
    from e show ?thesis
    proof
      assume "evalStep h st st'"
      from evalStepD(5) [OF this] show ?thesis .
    next
      assume "evalStep h ?st0 st'"
      from evalStepD(5) [OF this] obtain c ps b where
        "st' = ?st0\<lparr>configFileCache := c, projectStatus := ps, buildInfoChecked := b\<rparr>" by blast
      then have "st' = st\<lparr>configFileCache := c, projectStatus := ps, buildInfoChecked := b\<rparr>" by simp
      then show ?thesis by blast
    qed
  qed
  then obtain c ps b where "st' = st\<lparr>configFileCache := c, projectStatus := ps, buildInfoChecked := b\<rparr>"
    by blast
  then have "?st2 = st\<lparr>configFileCache := c, projectStatus := ps(p \<mapsto> actual), buildInfoChecked := b\<rparr>"
    by simp
  then have fr: "\<exists>c ps b. ?st2 = st\<lparr>configFileCache := c, projectStatus := ps, buildInfoChecked := b\<rparr>"
    by blast
  from c2 d2 pp2 ce2 fr show ?thesis unfolding evalStep_def by blast
qed

lemma getUpToDateStatus_step:
  "getUpToDateStatus n h project p st = Some (s, st') \<Longrightarrow>
   evalStep h st st' \<and> (s = ComputingUpstream \<longrightarrow> p \<in> computing st)"
proof (induction n arbitrary: project p st s st')
  case 0
  show ?case
  proof (cases project)
    case None
    with 0 show ?thesis by (auto simp: evalStep_refl)
  next
    case (Some cfg)
    with 0 show ?thesis by (auto simp: evalStep_refl computing_def split: option.splits)
  qed
next
  case (Suc n)
  show ?case
  proof (cases project)
    case None
    with Suc.prems show ?thesis by (auto simp: evalStep_refl)
  next
    case (Some cfg)
    show ?thesis
    proof (cases "projectStatus st p")
      case prior: (Some prior)
      with Some Suc.prems show ?thesis by (auto simp: evalStep_refl computing_def)
    next
      case None
      let ?ev = "\<lambda>parsed refPath s. getUpToDateStatus n h parsed refPath s"
      from Suc.prems Some None obtain actual st1 where
        w: "getUpToDateStatusWorker ?ev h cfg p st = Some (actual, st1)" and
        r: "s = actual" "st' = st1\<lparr>projectStatus := (projectStatus st1)(p \<mapsto> actual)\<rparr>"
        by (cases "getUpToDateStatusWorker ?ev h cfg p st") auto
      have step: "\<And>parsed q s r s'. ?ev parsed q s = Some (r, s') \<Longrightarrow> evalStep h s s'"
        using Suc.IH by blast
      note a = worker_not_computing [OF w]
      from evalStep_marker [OF None worker_step [where ev = ?ev, OF step w] a] r a
      show ?thesis by simp
    qed
  qed
qed

lemma parseConfigFile_parsed_parseable:
  assumes "parseConfigFile h n p st = (Some cfg, st1)"
  shows "p \<in> parseablePaths h st1"
proof -
  from parseConfigFile_cases(3) [OF assms] obtain e where
    e: "configFileCache st1 p = Some e" "Some cfg = (case e of Inr cfg \<Rightarrow> Some cfg | Inl d \<Rightarrow> None)"
    by blast
  then have "configFileCache st1 p = Some (Inr cfg)" by (cases e) simp_all
  then show ?thesis by (simp add: parseablePaths_def)
qed

lemma evalStep_card:
  assumes s: "evalStep h st st'" and f: "finite (parseablePaths h st)"
  shows "card (parseablePaths h st' - dom (projectStatus st'))
           \<le> card (parseablePaths h st - dom (projectStatus st))"
proof -
  have "parseablePaths h st' - dom (projectStatus st') \<subseteq> parseablePaths h st - dom (projectStatus st)"
    using evalStepD(2) [OF s] evalStepD(3) [OF s] by blast
  then show ?thesis using f by (intro card_mono) simp_all
qed

lemma upstreamLoop_total:
  assumes tot: "\<And>parsed q s. finite (parseablePaths h s) \<Longrightarrow>
      card (parseablePaths h s - dom (projectStatus s)) < n \<Longrightarrow>
      (\<forall>cfg. parsed = Some cfg \<longrightarrow> q \<in> parseablePaths h s) \<Longrightarrow> \<exists>r. ev parsed q s = Some r"
    and step: "\<And>parsed q s r s'. ev parsed q s = Some (r, s') \<Longrightarrow> evalStep h s s'"
  shows "finite (parseablePaths h st) \<Longrightarrow>
    card (parseablePaths h st - dom (projectStatus st)) < n \<Longrightarrow>
    \<exists>r. upstreamLoop ev h sc refs us st = Some r"
proof (induction refs arbitrary: us st)
  case Nil
  then show ?case by simp
next
  case (Cons ref refs)
  let ?n = "resolveProjectReferencePath h ref"
  obtain parsed st1 where p: "parseConfigFile h ?n (toPath h ?n) st = (parsed, st1)"
    by (cases "parseConfigFile h ?n (toPath h ?n) st")
  note s1 = evalStep_parse [OF p]
  have f1: "finite (parseablePaths h st1)" using Cons.prems(1) evalStepD(3) [OF s1] by simp
  have c1: "card (parseablePaths h st1 - dom (projectStatus st1)) < n"
    using evalStep_card [OF s1 Cons.prems(1)] Cons.prems(2) by simp
  have m1: "\<forall>cfg. parsed = Some cfg \<longrightarrow> toPath h ?n \<in> parseablePaths h st1"
    using p parseConfigFile_parsed_parseable by blast
  from tot [OF f1 c1 m1] obtain r st2 where e: "ev parsed (toPath h ?n) st1 = Some (r, st2)"
    by force
  with p have er: "evaluateReference ev h ref st = Some (r, st2)"
    by (simp add: evaluateReference_def Let_def)
  note s2 = step [OF e]
  have f2: "finite (parseablePaths h st2)" using f1 evalStepD(3) [OF s2] by simp
  have c2: "card (parseablePaths h st2 - dom (projectStatus st2)) < n"
    using evalStep_card [OF s2 f1] c1 by simp
  note ih = Cons.IH [OF f2 c2]
  show ?case
  proof (cases r)
    case (UpToDate info)
    with er ih show ?thesis by (auto simp: Let_def)
  next
    case ComputingUpstream
    with er ih show ?thesis by (auto simp: Let_def)
  qed (use er in \<open>auto simp: Let_def\<close>)
qed

lemma worker_total:
  assumes tot: "\<And>parsed q s. finite (parseablePaths h s) \<Longrightarrow>
      card (parseablePaths h s - dom (projectStatus s)) < n \<Longrightarrow>
      (\<forall>cfg. parsed = Some cfg \<longrightarrow> q \<in> parseablePaths h s) \<Longrightarrow> \<exists>r. ev parsed q s = Some r"
    and step: "\<And>parsed q s r s'. ev parsed q s = Some (r, s') \<Longrightarrow> evalStep h s s'"
    and f: "finite (parseablePaths h st)"
    and c: "card (parseablePaths h st - dom (projectStatus st)) < Suc n"
    and m: "p \<in> parseablePaths h st" and none: "projectStatus st p = None"
  shows "\<exists>r. getUpToDateStatusWorker ev h project p st = Some r"
proof (cases "projectReferences project")
  case None
  then show ?thesis
    by (auto simp: getUpToDateStatusWorker_def Let_def split: sum.splits prod.splits)
next
  case (Some refs)
  let ?st0 = "st\<lparr>projectStatus := (projectStatus st)(p \<mapsto> ComputingUpstream)\<rparr>"
  have pp0: "parseablePaths h ?st0 = parseablePaths h st" by (simp add: parseablePaths_def)
  have f0: "finite (parseablePaths h ?st0)" using f pp0 by simp
  from m none have mem: "p \<in> parseablePaths h st - dom (projectStatus st)" by auto
  have "parseablePaths h ?st0 - dom (projectStatus ?st0)
      = (parseablePaths h st - dom (projectStatus st)) - {p}" using pp0 by auto
  then have "card (parseablePaths h ?st0 - dom (projectStatus ?st0))
      = card (parseablePaths h st - dom (projectStatus st)) - 1"
    using mem by (simp add: card_Diff_singleton)
  moreover from mem f have "card (parseablePaths h st - dom (projectStatus st)) > 0"
    by (auto simp: card_gt_0_iff)
  ultimately have c0: "card (parseablePaths h ?st0 - dom (projectStatus ?st0)) < n"
    using c by simp
  show ?thesis
  proof (cases "newestInput h (world st) (fileNames project) (None, minimumDate)")
    case (Inl f)
    then show ?thesis by (simp add: getUpToDateStatusWorker_def)
  next
    case (Inr acc)
    obtain inName inTime where acc: "acc = (inName, inTime)" by (cases acc)
    let ?sc = "outputsLoop h (world st) inTime (getAllProjectOutputs h project) initialScan"
    have "\<exists>r. upstreamLoop ev h ?sc refs initialUpstream ?st0 = Some r"
      by (rule upstreamLoop_total [OF tot step f0 c0])
    then obtain res st1 where l: "upstreamLoop ev h ?sc refs initialUpstream ?st0 = Some (res, st1)"
      by force
    show ?thesis
    proof (cases "fileNames project = [] \<and> \<not> canJsonReportNoInutFiles h project")
      case True
      with Inr acc show ?thesis by (simp add: getUpToDateStatusWorker_def)
    next
      case False
      with Inr acc Some l show ?thesis
        by (cases res) (simp_all add: getUpToDateStatusWorker_def Let_def)
    qed
  qed
qed

lemma getUpToDateStatus_total:
  "finite (parseablePaths h st) \<Longrightarrow>
   card (parseablePaths h st - dom (projectStatus st)) < n \<Longrightarrow>
   (\<forall>cfg. project = Some cfg \<longrightarrow> p \<in> parseablePaths h st) \<Longrightarrow>
   \<exists>r. getUpToDateStatus n h project p st = Some r"
proof (induction n arbitrary: project p st)
  case 0
  then show ?case by simp
next
  case (Suc n)
  show ?case
  proof (cases project)
    case None
    then show ?thesis by simp
  next
    case (Some cfg)
    show ?thesis
    proof (cases "projectStatus st p")
      case prior: (Some prior)
      with Some show ?thesis by simp
    next
      case None
      let ?ev = "\<lambda>parsed refPath s. getUpToDateStatus n h parsed refPath s"
      have step: "\<And>parsed q s r s'. ?ev parsed q s = Some (r, s') \<Longrightarrow> evalStep h s s'"
        using getUpToDateStatus_step by blast
      from Suc.prems(3) Some have m: "p \<in> parseablePaths h st" by simp
      have "\<exists>r. getUpToDateStatusWorker ?ev h cfg p st = Some r"
      proof (rule worker_total [where n = n])
        fix parsed :: "ParsedCommandLine option" and q s
        assume "finite (parseablePaths h s)"
          "card (parseablePaths h s - dom (projectStatus s)) < n"
          "\<forall>cfg. parsed = Some cfg \<longrightarrow> q \<in> parseablePaths h s"
        then show "\<exists>r. getUpToDateStatus n h parsed q s = Some r" by (rule Suc.IH)
      next
        fix parsed q s r s'
        assume "getUpToDateStatus n h parsed q s = Some (r, s')"
        then show "evalStep h s s'" by (rule step)
      next
        show "finite (parseablePaths h st)" by (rule Suc.prems(1))
        show "card (parseablePaths h st - dom (projectStatus st)) < Suc n" by (rule Suc.prems(2))
        show "p \<in> parseablePaths h st" by (rule m)
        show "projectStatus st p = None" by (rule None)
      qed
      then obtain r where "getUpToDateStatusWorker ?ev h cfg p st = Some r" by blast
      with Some None show ?thesis by (cases r) simp
    qed
  qed
qed

text \<open>
  Claim C7 (the sentinel ComputingUpstream is never observable). From a state whose status
  map holds no ComputingUpstream, an evaluation that returns neither returns the sentinel
  nor leaves it in the status map: every entry written before the recursion into the
  references has been overwritten with the status computed. And the evaluation does
  return when the projects are finitely many and the fuel exceeds their number.
\<close>

theorem computingUpstream_not_observable:
  assumes "\<forall>q. projectStatus st q \<noteq> Some ComputingUpstream"
  shows "(getUpToDateStatus fuel h project p st = Some (s, st') \<longrightarrow>
            s \<noteq> ComputingUpstream \<and> (\<forall>q. projectStatus st' q \<noteq> Some ComputingUpstream)) \<and>
         (finite (parseablePaths h st) \<and> card (parseablePaths h st) < fuel \<and>
            (\<forall>cfg. project = Some cfg \<longrightarrow> p \<in> parseablePaths h st) \<longrightarrow>
            (\<exists>r. getUpToDateStatus fuel h project p st = Some r))"
proof (intro conjI impI)
  assume r: "getUpToDateStatus fuel h project p st = Some (s, st')"
  from assms have e: "computing st = {}" by (simp add: computing_def)
  from getUpToDateStatus_step [OF r] have "evalStep h st st'"
    and c: "s = ComputingUpstream \<longrightarrow> p \<in> computing st" by simp_all
  from evalStepD(1) [OF this(1)] e have "computing st' = {}" by simp
  then show "\<forall>q. projectStatus st' q \<noteq> Some ComputingUpstream" by (simp add: computing_def)
  from c e show "s \<noteq> ComputingUpstream" by auto
next
  assume a: "finite (parseablePaths h st) \<and> card (parseablePaths h st) < fuel \<and>
            (\<forall>cfg. project = Some cfg \<longrightarrow> p \<in> parseablePaths h st)"
  then have "card (parseablePaths h st - dom (projectStatus st)) \<le> card (parseablePaths h st)"
    by (intro card_mono) auto
  with a have "card (parseablePaths h st - dom (projectStatus st)) < fuel" by simp
  with a show "\<exists>r. getUpToDateStatus fuel h project p st = Some r"
    by (intro getUpToDateStatus_total) simp_all
qed

text \<open>
  Claim C9 (status lookup is total on an unparsed configuration). When the configuration
  of a project does not parse - the cache holds its diagnostic, or the cache has no entry
  and the host's parser answers with a diagnostic - \<open>getUpToDateStatusOfProject\<close> returns,
  whatever the fuel, the status Unbuildable with the reason "File deleted mid-build"; and
  so does the evaluator on an undefined configuration, leaving the state as it is.
\<close>

theorem unparsed_config_is_unbuildable:
  assumes "configFileCache st (toPath h (resolveProjectName h project)) = Some (Inl d) \<or>
           (configFileCache st (toPath h (resolveProjectName h project)) = None \<and>
            getParsedCommandLineOfConfigFile h (resolveProjectName h project) = Inl d)"
  shows "(\<exists>st'. getUpToDateStatusOfProject fuel h project st =
            Some (Unbuildable ''File deleted mid-build'', st')) \<and>
         getUpToDateStatus fuel h None p st = Some (Unbuildable ''File deleted mid-build'', st)"
proof -
  let ?n = "resolveProjectName h project"
  from assms have "fst (parseConfigFile h ?n (toPath h ?n) st) = None"
    by (auto simp: parseConfigFile_def Let_def)
  then obtain st1 where "parseConfigFile h ?n (toPath h ?n) st = (None, st1)"
    by (cases "parseConfigFile h ?n (toPath h ?n) st") simp
  then have "getUpToDateStatusOfProject fuel h project st =
            Some (Unbuildable ''File deleted mid-build'', st1)"
    by (simp add: getUpToDateStatusOfProject_def Let_def)
  then show ?thesis by simp
qed

lemma upstreamLoop_skip:
  assumes m: "missingOutputFileName sc = Some m" "m \<noteq> []"
  shows "upstreamStatuses ev h pre st = Some (ss, st1) \<Longrightarrow> list_all continuesUpstream ss \<Longrightarrow>
    \<exists>us1. upstreamLoop ev h sc (pre @ rest) us st = upstreamLoop ev h sc rest us1 st1"
proof (induction pre arbitrary: us st ss)
  case Nil
  then show ?case by auto
next
  case (Cons ref pre)
  from Cons.prems(1) obtain r sta ss' where
    e: "evaluateReference ev h ref st = Some (r, sta)" and
    rest: "upstreamStatuses ev h pre sta = Some (ss', st1)" and ss: "ss = r # ss'"
    by (auto split: option.splits)
  from Cons.prems(2) ss have c: "continuesUpstream r" "list_all continuesUpstream ss'" by simp_all
  let ?us1 = "us\<lparr>usesPrepend := usesPrepend us \<or> prepend ref\<rparr>"
  from c(1) e m have "upstreamLoop ev h sc ((ref # pre) @ rest) us st
      = upstreamLoop ev h sc (pre @ rest) ?us1 sta"
    by (cases r) (simp_all add: Let_def)
  with Cons.IH [OF rest c(2), of ?us1] show ?case by simp
qed

lemma upstreamLoop_finished:
  "upstreamLoop ev h sc refs us st = Some (Inr us', st1) \<Longrightarrow>
   \<exists>ss. upstreamStatuses ev h refs st = Some (ss, st1) \<and> list_all continuesUpstream ss"
proof (induction refs arbitrary: us st)
  case Nil
  then show ?case by simp
next
  case (Cons ref refs)
  obtain r sta where e: "evaluateReference ev h ref st = Some (r, sta)"
    using Cons.prems by (cases "evaluateReference ev h ref st") auto
  have "continuesUpstream r \<and> (\<exists>us1. upstreamLoop ev h sc refs us1 sta = Some (Inr us', st1))"
    using e Cons.prems by (cases r) (auto simp: Let_def split: if_splits)
  then obtain us1 where c: "continuesUpstream r"
    and l: "upstreamLoop ev h sc refs us1 sta = Some (Inr us', st1)" by blast
  from Cons.IH [OF l] obtain ss where "upstreamStatuses ev h refs sta = Some (ss, st1)"
    "list_all continuesUpstream ss" by blast
  with e c show ?case by simp
qed

lemma upstreamLoop_returns:
  "upstreamLoop ev h sc refs us st = Some (Inl s, st') \<Longrightarrow>
   (\<exists>x. s = UpstreamBlocked x) \<or> (\<exists>x. s = UpstreamOutOfDate x) \<or> (\<exists>x y. s = OutOfDateWithUpstream x y)"
proof (induction refs arbitrary: us st)
  case Nil
  then show ?case by simp
next
  case (Cons ref refs)
  obtain r st1 where e: "evaluateReference ev h ref st = Some (r, st1)"
    using Cons.prems by (cases "evaluateReference ev h ref st") auto
  show ?case
  proof (cases r)
    case (UpToDate info)
    with e Cons.prems Cons.IH show ?thesis
      by (auto simp: Let_def split: if_splits)
  next
    case ComputingUpstream
    with e Cons.prems Cons.IH show ?thesis by (auto simp: Let_def)
  qed (use e Cons.prems in \<open>auto simp: Let_def\<close>)
qed

lemma worker_with_missing_output:
  assumes inputs: "newestInput h (world st) (fileNames project) (None, minimumDate) = Inr (inName, inTime)"
    and nonContainer: "\<not> (fileNames project = [] \<and> \<not> canJsonReportNoInutFiles h project)"
    and missing: "missingOutputFileName (outputsLoop h (world st) inTime
                    (getAllProjectOutputs h project) initialScan) = Some m"
    and refs: "projectReferences project = Some refs"
  shows "getUpToDateStatusWorker ev h project p st =
     (case upstreamLoop ev h (outputsLoop h (world st) inTime (getAllProjectOutputs h project) initialScan)
             refs initialUpstream (setComputingUpstream p st) of
        None \<Rightarrow> None
      | Some (Inl status, st1) \<Rightarrow> Some (status, st1)
      | Some (Inr us, st1) \<Rightarrow> Some (OutputMissing m, st1))"
  using assms
  by (auto simp: getUpToDateStatusWorker_def Let_def setComputingUpstream_def statusAfterUpstream_def
      split: option.splits sum.splits prod.splits)

text \<open>The definitions that evaluating the examples unfolds.\<close>

lemmas example_defs = exampleHost_def exampleState_def createSolutionBuilderState_def
  exampleProject_def plainOptions_def sourceFiles_def

lemmas evaluator_defs = getUpToDateStatusOfProject_def getUpToDateStatusWorker_def
  parseConfigFile_def evaluateReference_def statusAfterUpstream_def modifiedTimeOf_def
  initialScan_def initialUpstream_def minimumDate_def maximumDate_def newer_def
  checkConfigFileUpToDateStatus_def Let_def

text \<open>
  The claim as first stated fails where an earlier reference is out of date: r2 evaluates
  to Unbuildable, yet the status of p, whose output is missing, is UpstreamOutOfDate.
\<close>

theorem upstream_status_counterexample:
  "map_option fst (getUpToDateStatusOfProject 3 (exampleHost staleConfigs) ''/r2/tsconfig.json''
      (exampleState plainOptions sourceFiles)) = Some (Unbuildable ''/r2/r2.ts does not exist'') \<and>
   map_option fst (getUpToDateStatusOfProject 3 (exampleHost staleConfigs) ''/p/tsconfig.json''
      (exampleState plainOptions sourceFiles)) = Some (UpstreamOutOfDate ''/r1/tsconfig.json'')"
  by (simp add: example_defs evaluator_defs staleConfigs_def eval_nat_numeral)

lemma exampleHost_parseable_mem:
  assumes "map_of configs n = Some cfg"
  shows "n \<in> parseablePaths (exampleHost configs) st"
proof -
  from assms have "getParsedCommandLineOfConfigFile (exampleHost configs) n = Inr cfg"
    by (simp add: exampleHost_def)
  then have "n \<in> {n. \<exists>cfg. getParsedCommandLineOfConfigFile (exampleHost configs) n = Inr cfg}"
    by blast
  then have "toPath (exampleHost configs) n \<in> toPath (exampleHost configs) `
      {n. \<exists>cfg. getParsedCommandLineOfConfigFile (exampleHost configs) n = Inr cfg}"
    by (rule imageI)
  moreover have "toPath (exampleHost configs) n = n" by (simp add: exampleHost_def)
  ultimately show ?thesis by (simp add: parseablePaths_def)
qed

theorem unparsed_config_is_unbuildable_witness:
  "configFileCache (exampleState plainOptions sourceFiles)
      (toPath (exampleHost chainConfigs) (resolveProjectName (exampleHost chainConfigs) ''/x/tsconfig.json''))
     = None \<and>
   getParsedCommandLineOfConfigFile (exampleHost chainConfigs)
      (resolveProjectName (exampleHost chainConfigs) ''/x/tsconfig.json'')
     = Inl ''cannot read /x/tsconfig.json'' \<and>
   (\<exists>st'. getUpToDateStatusOfProject 0 (exampleHost chainConfigs) ''/x/tsconfig.json''
             (exampleState plainOptions sourceFiles)
           = Some (Unbuildable ''File deleted mid-build'', st'))"
proof -
  have a: "configFileCache (exampleState plainOptions sourceFiles)
      (toPath (exampleHost chainConfigs) (resolveProjectName (exampleHost chainConfigs) ''/x/tsconfig.json''))
     = None"
    by (simp add: example_defs)
  have b: "getParsedCommandLineOfConfigFile (exampleHost chainConfigs)
      (resolveProjectName (exampleHost chainConfigs) ''/x/tsconfig.json'')
     = Inl ''cannot read /x/tsconfig.json''"
    by (simp add: example_defs chainConfigs_def)
  from a b have "configFileCache (exampleState plainOptions sourceFiles)
      (toPath (exampleHost chainConfigs) (resolveProjectName (exampleHost chainConfigs) ''/x/tsconfig.json''))
       = Some (Inl ''cannot read /x/tsconfig.json'') \<or>
     (configFileCache (exampleState plainOptions sourceFiles)
      (toPath (exampleHost chainConfigs) (resolveProjectName (exampleHost chainConfigs) ''/x/tsconfig.json''))
       = None \<and>
      getParsedCommandLineOfConfigFile (exampleHost chainConfigs)
        (resolveProjectName (exampleHost chainConfigs) ''/x/tsconfig.json'')
       = Inl ''cannot read /x/tsconfig.json'')" by simp
  from unparsed_config_is_unbuildable [OF this, of 0] a b show ?thesis by blast
qed

theorem computingUpstream_not_observable_witness:
  "(\<forall>q. projectStatus (exampleState plainOptions sourceFiles) q \<noteq> Some ComputingUpstream) \<and>
   finite (parseablePaths (exampleHost cycleConfigs) (exampleState plainOptions sourceFiles)) \<and>
   card (parseablePaths (exampleHost cycleConfigs) (exampleState plainOptions sourceFiles)) < 3 \<and>
   ''/a/tsconfig.json'' \<in> parseablePaths (exampleHost cycleConfigs) (exampleState plainOptions sourceFiles) \<and>
   map_option fst (getUpToDateStatus 3 (exampleHost cycleConfigs)
       (Some (exampleProject ''/a/tsconfig.json'' [''/a/a.ts''] [''/b/tsconfig.json'']))
       ''/a/tsconfig.json'' (exampleState plainOptions sourceFiles))
     = Some (UpstreamOutOfDate ''/b/tsconfig.json'') \<and>
   (\<forall>q. projectStatus (snd (the (getUpToDateStatus 3 (exampleHost cycleConfigs)
       (Some (exampleProject ''/a/tsconfig.json'' [''/a/a.ts''] [''/b/tsconfig.json'']))
       ''/a/tsconfig.json'' (exampleState plainOptions sourceFiles)))) q \<noteq> Some ComputingUpstream)"
proof -
  let ?S = "exampleState plainOptions sourceFiles"
  let ?H = "exampleHost cycleConfigs"
  let ?cfg = "exampleProject ''/a/tsconfig.json'' [''/a/a.ts''] [''/b/tsconfig.json'']"
  let ?R = "getUpToDateStatus 3 ?H (Some ?cfg) ''/a/tsconfig.json'' ?S"
  have n: "\<forall>q. projectStatus ?S q \<noteq> Some ComputingUpstream" by (simp add: example_defs)
  have f: "finite (parseablePaths ?H ?S)" by (rule exampleHost_finite)
  have c: "card (parseablePaths ?H ?S) < 3"
    using exampleHost_card [of cycleConfigs plainOptions sourceFiles] by (simp add: cycleConfigs_def)
  have m: "''/a/tsconfig.json'' \<in> parseablePaths ?H ?S"
    by (rule exampleHost_parseable_mem [of _ _ ?cfg]) (simp add: cycleConfigs_def)
  have v: "map_option fst ?R = Some (UpstreamOutOfDate ''/b/tsconfig.json'')"
    by (simp add: example_defs evaluator_defs cycleConfigs_def eval_nat_numeral)
  then have r: "?R = Some (fst (the ?R), snd (the ?R))" by (cases ?R) auto
  from computingUpstream_not_observable [OF n, of 3 ?H "Some ?cfg" "''/a/tsconfig.json''"
      "fst (the ?R)" "snd (the ?R)"] r
  have "\<forall>q. projectStatus (snd (the ?R)) q \<noteq> Some ComputingUpstream" by blast
  with n f c m v show ?thesis by blast
qed

section \<open>Frames of the reporting, queue and propagation functions\<close>

lemma control_update [simp]:
  "control (st\<lparr>configFileCache := c\<rparr>) = control st"
  "control (st\<lparr>projectStatus := ps\<rparr>) = control st"
  "control (st\<lparr>buildInfoChecked := b\<rparr>) = control st"
  "control (st\<lparr>diagnostics := d\<rparr>) = control st"
  "control (st\<lparr>projectPendingBuild := q\<rparr>) = control st"
  "control (st\<lparr>projectErrorsReported := e\<rparr>) = control st"
  "control (st\<lparr>hostReports := r\<rparr>) = control st"
  "control (st\<lparr>hostWrites := ws\<rparr>) = control st"
  "control (st\<lparr>world := w\<rparr>) = control st"
  by (simp_all add: control_def)

lemma fileSystem_update [simp]:
  "fileSystem (st\<lparr>configFileCache := c\<rparr>) = fileSystem st"
  "fileSystem (st\<lparr>projectStatus := ps\<rparr>) = fileSystem st"
  "fileSystem (st\<lparr>buildInfoChecked := b\<rparr>) = fileSystem st"
  "fileSystem (st\<lparr>diagnostics := d\<rparr>) = fileSystem st"
  "fileSystem (st\<lparr>projectPendingBuild := q\<rparr>) = fileSystem st"
  "fileSystem (st\<lparr>projectErrorsReported := e\<rparr>) = fileSystem st"
  "fileSystem (st\<lparr>hostReports := r\<rparr>) = fileSystem st"
  "fileSystem (st\<lparr>buildOrder := bo\<rparr>) = fileSystem st"
  "fileSystem (st\<lparr>allProjectBuildPending := b1\<rparr>) = fileSystem st"
  "fileSystem (st\<lparr>needsSummary := b2\<rparr>) = fileSystem st"
  "fileSystem (st\<lparr>watchAllProjectsPending := b3\<rparr>) = fileSystem st"
  by (simp_all add: fileSystem_def)

lemma control_fields:
  assumes "control st' = control st"
  shows "buildOptions st' = buildOptions st" "rootNames st' = rootNames st"
    "buildOrder st' = buildOrder st" "allProjectBuildPending st' = allProjectBuildPending st"
    "needsSummary st' = needsSummary st" "watchAllProjectsPending st' = watchAllProjectsPending st"
    "watch st' = watch st"
  using assms by (simp_all add: control_def)

lemma fileSystem_fields:
  assumes "fileSystem st' = fileSystem st"
  shows "world st' = world st" "hostWrites st' = hostWrites st"
  using assms by (simp_all add: fileSystem_def)

text \<open>The reporting and queue primitives.\<close>

lemma reportStatus_frame [simp]:
  "control (reportStatus m a st) = control st"
  "fileSystem (reportStatus m a st) = fileSystem st"
  "projectPendingBuild (reportStatus m a st) = projectPendingBuild st"
  "buildOptions (reportStatus m a st) = buildOptions st"
  by (simp_all add: reportStatus_def)

lemma reportAndStoreErrors_frame [simp]:
  "control (reportAndStoreErrors p e st) = control st"
  "fileSystem (reportAndStoreErrors p e st) = fileSystem st"
  "projectPendingBuild (reportAndStoreErrors p e st) = projectPendingBuild st"
  "buildOptions (reportAndStoreErrors p e st) = buildOptions st"
  by (simp_all add: reportAndStoreErrors_def reportErrors_def Let_def)

lemma reportParseConfigFileDiagnostic_frame [simp]:
  "control (reportParseConfigFileDiagnostic p st) = control st"
  "fileSystem (reportParseConfigFileDiagnostic p st) = fileSystem st"
  "projectPendingBuild (reportParseConfigFileDiagnostic p st) = projectPendingBuild st"
  "buildOptions (reportParseConfigFileDiagnostic p st) = buildOptions st"
  by (simp_all add: reportParseConfigFileDiagnostic_def)

lemma clearProjectStatus_frame [simp]:
  "control (clearProjectStatus p st) = control st"
  "fileSystem (clearProjectStatus p st) = fileSystem st"
  "projectPendingBuild (clearProjectStatus p st) = projectPendingBuild st"
  "hostReports (clearProjectStatus p st) = hostReports st"
  by (simp_all add: clearProjectStatus_def)

lemma addProjToQueue_frame [simp]:
  "control (addProjToQueue p l st) = control st"
  "fileSystem (addProjToQueue p l st) = fileSystem st"
  "hostReports (addProjToQueue p l st) = hostReports st"
  by (simp_all add: addProjToQueue_def split: option.splits)

lemma deletePending_frame [simp]:
  "control (deletePending p st) = control st"
  "fileSystem (deletePending p st) = fileSystem st"
  "hostReports (deletePending p st) = hostReports st"
  "buildOptions (deletePending p st) = buildOptions st"
  "map_of (projectPendingBuild (deletePending p st)) k =
     (if k = p then None else map_of (projectPendingBuild st) k)"
  by (auto simp: deletePending_def delete_conv)

lemma verboseReportProjectStatus_frame [simp]:
  "control (verboseReportProjectStatus n s st) = control st"
  "fileSystem (verboseReportProjectStatus n s st) = fileSystem st"
  "projectPendingBuild (verboseReportProjectStatus n s st) = projectPendingBuild st"
  "buildOptions (verboseReportProjectStatus n s st) = buildOptions st"
  by (simp_all add: verboseReportProjectStatus_def)

lemma parseConfigFile_frame:
  assumes "parseConfigFile h n p st = (r, st1)"
  shows "control st1 = control st" "fileSystem st1 = fileSystem st"
    "projectPendingBuild st1 = projectPendingBuild st" "hostReports st1 = hostReports st"
    "buildOptions st1 = buildOptions st"
proof -
  from parseConfigFile_cases(1) [OF assms] obtain c where "st1 = st\<lparr>configFileCache := c\<rparr>" by blast
  then show "control st1 = control st" "fileSystem st1 = fileSystem st"
    "projectPendingBuild st1 = projectPendingBuild st" "hostReports st1 = hostReports st"
    "buildOptions st1 = buildOptions st"
    by simp_all
qed

lemma applyReloadLevel_frame:
  assumes "applyReloadLevel h l p cfg st = (cfg1, st1)"
  shows "control st1 = control st" "fileSystem st1 = fileSystem st"
    "projectPendingBuild st1 = projectPendingBuild st" "hostReports st1 = hostReports st"
    "buildOptions st1 = buildOptions st"
  using assms by (auto simp: applyReloadLevel_def Let_def split: if_splits prod.splits)

lemma getUpToDateStatus_frame:
  assumes "getUpToDateStatus n h project p st = Some (s, st1)"
  shows "control st1 = control st" "fileSystem st1 = fileSystem st"
    "projectPendingBuild st1 = projectPendingBuild st" "hostReports st1 = hostReports st"
    "buildOptions st1 = buildOptions st"
proof -
  from getUpToDateStatus_step [OF assms] have "evalStep h st st1" by simp
  from evalStepD(5) [OF this] obtain c ps b where
    "st1 = st\<lparr>configFileCache := c, projectStatus := ps, buildInfoChecked := b\<rparr>" by blast
  then show "control st1 = control st" "fileSystem st1 = fileSystem st"
    "projectPendingBuild st1 = projectPendingBuild st" "hostReports st1 = hostReports st"
    "buildOptions st1 = buildOptions st"
    by simp_all
qed

text \<open>Downstream propagation.\<close>

lemma restatusReferencingProject_frame [simp]:
  "control (restatusReferencingProject h proj pp br np ref st) = control st"
  "fileSystem (restatusReferencingProject h proj pp br np ref st) = fileSystem st"
  "hostReports (restatusReferencingProject h proj pp br np ref st) = hostReports st"
  by (simp_all add: restatusReferencingProject_def Let_def split: option.splits UpToDateStatus.splits)

lemma queueReferencingProject_frame [simp]:
  "control (queueReferencingProject h proj pp br np st) = control st"
  "fileSystem (queueReferencingProject h proj pp br np st) = fileSystem st"
  "hostReports (queueReferencingProject h proj pp br np st) = hostReports st"
  by (auto simp: queueReferencingProject_def Let_def parseConfigFile_frame
      split: option.splits prod.splits)

lemma fold_queueReferencingProject_frame:
  "control (fold (queueReferencingProject h proj pp br) xs st) = control st \<and>
   fileSystem (fold (queueReferencingProject h proj pp br) xs st) = fileSystem st \<and>
   hostReports (fold (queueReferencingProject h proj pp br) xs st) = hostReports st"
  by (induction xs arbitrary: st) simp_all

lemma queueReferencingProjects_frame [simp]:
  "control (queueReferencingProjects h proj pp i cfg order br st) = control st"
  "fileSystem (queueReferencingProjects h proj pp i cfg order br st) = fileSystem st"
  "hostReports (queueReferencingProjects h proj pp i cfg order br st) = hostReports st"
  by (simp_all add: queueReferencingProjects_def fold_queueReferencingProject_frame)

lemma anyErrors_iff:
  "(r AND BuildResultFlags_AnyErrors \<noteq> 0) \<longleftrightarrow>
     (r AND BuildResultFlags_ConfigFileErrors \<noteq> 0 \<or> r AND BuildResultFlags_SyntaxErrors \<noteq> 0 \<or>
      r AND BuildResultFlags_TypeErrors \<noteq> 0 \<or> r AND BuildResultFlags_DeclarationEmitErrors \<noteq> 0 \<or>
      r AND BuildResultFlags_EmitErrors \<noteq> 0)"
  by (simp add: BuildResultFlags_AnyErrors_def bit.conj_disj_distrib or_eq_0_iff)


section \<open>Downstream propagation is gated on the producing project\<close>

text \<open>
  Claim C4. \<open>queueReferencingProjects\<close> returns without changing the state, so without
  propagating to any referencing project, when the build result of the project just built
  carries one of the error bits or when that project's own configuration is not
  composite; it propagates only when neither holds.
\<close>

theorem queueReferencingProjects_unchanged:
  assumes "buildResult AND BuildResultFlags_ConfigFileErrors \<noteq> 0 \<or>
           buildResult AND BuildResultFlags_SyntaxErrors \<noteq> 0 \<or>
           buildResult AND BuildResultFlags_TypeErrors \<noteq> 0 \<or>
           buildResult AND BuildResultFlags_DeclarationEmitErrors \<noteq> 0 \<or>
           buildResult AND BuildResultFlags_EmitErrors \<noteq> 0 \<or>
           \<not> composite (options cfg)"
  shows "queueReferencingProjects h proj projPath projectIndex cfg order buildResult st = st"
proof (cases "composite (options cfg)")
  case True
  with assms have "buildResult AND BuildResultFlags_AnyErrors \<noteq> 0"
    unfolding anyErrors_iff by simp
  then show ?thesis by (simp add: queueReferencingProjects_def)
next
  case False
  then show ?thesis by (simp add: queueReferencingProjects_def)
qed

theorem queueReferencingProjects_unchanged_witness:
  "queueReferencingProjects (exampleHost chainConfigs) ''/a/tsconfig.json'' ''/a/tsconfig.json'' 0
      (exampleProject ''/a/tsconfig.json'' [''/a/a.ts''] [])
      [''/a/tsconfig.json'', ''/b/tsconfig.json'']
      (BuildResultFlags_SyntaxErrors OR BuildResultFlags_DeclarationOutputUnchanged) producerBuilt
     = producerBuilt \<and>
   queueReferencingProjects (exampleHost chainConfigs) ''/a/tsconfig.json'' ''/a/tsconfig.json'' 0
      ((exampleProject ''/a/tsconfig.json'' [''/a/a.ts''] [])\<lparr>options :=
          \<lparr>composite = False, configFilePath = ''/a/tsconfig.json'', extendedSourceFiles = [],
           listEmittedFiles = False\<rparr>\<rparr>)
      [''/a/tsconfig.json'', ''/b/tsconfig.json''] BuildResultFlags_Success producerBuilt
     = producerBuilt \<and>
   projectPendingBuild
     (queueReferencingProjects (exampleHost chainConfigs) ''/a/tsconfig.json'' ''/a/tsconfig.json'' 0
        (exampleProject ''/a/tsconfig.json'' [''/a/a.ts''] [])
        [''/a/tsconfig.json'', ''/b/tsconfig.json''] BuildResultFlags_Success producerBuilt)
     = [(''/b/tsconfig.json'', ReloadLevel_None)]"
proof (intro conjI)
  show "queueReferencingProjects (exampleHost chainConfigs) ''/a/tsconfig.json'' ''/a/tsconfig.json'' 0
      (exampleProject ''/a/tsconfig.json'' [''/a/a.ts''] [])
      [''/a/tsconfig.json'', ''/b/tsconfig.json'']
      (BuildResultFlags_SyntaxErrors OR BuildResultFlags_DeclarationOutputUnchanged) producerBuilt
     = producerBuilt"
    by (rule queueReferencingProjects_unchanged)
      (simp add: BuildResultFlags_SyntaxErrors_def BuildResultFlags_DeclarationOutputUnchanged_def
        BuildResultFlags_ConfigFileErrors_def BuildResultFlags_TypeErrors_def
        BuildResultFlags_DeclarationEmitErrors_def BuildResultFlags_EmitErrors_def)
  show "queueReferencingProjects (exampleHost chainConfigs) ''/a/tsconfig.json'' ''/a/tsconfig.json'' 0
      ((exampleProject ''/a/tsconfig.json'' [''/a/a.ts''] [])\<lparr>options :=
          \<lparr>composite = False, configFilePath = ''/a/tsconfig.json'', extendedSourceFiles = [],
           listEmittedFiles = False\<rparr>\<rparr>)
      [''/a/tsconfig.json'', ''/b/tsconfig.json''] BuildResultFlags_Success producerBuilt
     = producerBuilt"
    by (rule queueReferencingProjects_unchanged) simp
  show "projectPendingBuild
     (queueReferencingProjects (exampleHost chainConfigs) ''/a/tsconfig.json'' ''/a/tsconfig.json'' 0
        (exampleProject ''/a/tsconfig.json'' [''/a/a.ts''] [])
        [''/a/tsconfig.json'', ''/b/tsconfig.json''] BuildResultFlags_Success producerBuilt)
     = [(''/b/tsconfig.json'', ReloadLevel_None)]"
    by (simp add: queueReferencingProjects_def queueReferencingProject_def producerBuilt_def
        example_defs chainConfigs_def parseConfigFile_def restatusReferencingProject_def
        addProjToQueue_def BuildResultFlags_Success_def BuildResultFlags_AnyErrors_def
        BuildResultFlags_ConfigFileErrors_def BuildResultFlags_SyntaxErrors_def
        BuildResultFlags_TypeErrors_def BuildResultFlags_DeclarationEmitErrors_def
        BuildResultFlags_EmitErrors_def Let_def)
qed


section \<open>More on the graph builder and the evaluator\<close>












lemma worker_priority:
  assumes run: "getUpToDateStatus (Suc n) h (Some project) p st = Some (s, st')"
    and fresh: "projectStatus st p = None"
    and inputs: "newestInput h (world st) (fileNames project) (None, minimumDate) = Inr (inName, inTime)"
    and nonContainer: "\<not> (fileNames project = [] \<and> \<not> canJsonReportNoInutFiles h project)"
    and missing: "missingOutputFileName (outputsLoop h (world st) inTime
                    (getAllProjectOutputs h project) initialScan) = Some m"
    and named: "m \<noteq> []"
    and refs: "projectReferences project = Some refs"
  shows "(\<forall>pre ref post ss st1 r st2.
            refs = pre @ ref # post \<and>
            upstreamStatuses (getUpToDateStatus n h) h pre (setComputingUpstream p st) = Some (ss, st1) \<and>
            list_all continuesUpstream ss \<and>
            evaluateReference (getUpToDateStatus n h) h ref st1 = Some (r, st2) \<and>
            \<not> continuesUpstream r \<longrightarrow>
            s = (case r of Unbuildable reason \<Rightarrow> UpstreamBlocked (path ref)
                 | other \<Rightarrow> UpstreamOutOfDate (path ref))) \<and>
         (\<forall>m'. s = OutputMissing m' \<longrightarrow>
            m' = m \<and>
            (\<exists>ss st1. upstreamStatuses (getUpToDateStatus n h) h refs (setComputingUpstream p st)
                        = Some (ss, st1) \<and> list_all continuesUpstream ss))"
proof -
  let ?ev = "getUpToDateStatus n h"
  let ?sc = "outputsLoop h (world st) inTime (getAllProjectOutputs h project) initialScan"
  let ?loop = "upstreamLoop ?ev h ?sc refs initialUpstream (setComputingUpstream p st)"
  note w = worker_with_missing_output [OF inputs nonContainer missing refs, of ?ev p]
  from run fresh have "(case getUpToDateStatusWorker ?ev h project p st of
             None \<Rightarrow> None
           | Some (actual, st1) \<Rightarrow>
               Some (actual, st1\<lparr>projectStatus := (projectStatus st1)(p \<mapsto> actual)\<rparr>)) = Some (s, st')"
    by simp
  then obtain stw where ws: "getUpToDateStatusWorker ?ev h project p st = Some (s, stw)"
    by (cases "getUpToDateStatusWorker ?ev h project p st") auto
  with w obtain res st1 where l: "?loop = Some (res, st1)"
    by (cases ?loop) auto
  from ws w l have res: "s = (case res of Inl status \<Rightarrow> status | Inr us \<Rightarrow> OutputMissing m)"
    by (cases res) simp_all
  show ?thesis
  proof (rule conjI; intro allI impI)
    fix pre ref post ss sta r stb
    assume a: "refs = pre @ ref # post \<and>
            upstreamStatuses ?ev h pre (setComputingUpstream p st) = Some (ss, sta) \<and>
            list_all continuesUpstream ss \<and>
            evaluateReference ?ev h ref sta = Some (r, stb) \<and>
            \<not> continuesUpstream r"
    then have a1: "refs = pre @ ref # post"
      and a2: "upstreamStatuses ?ev h pre (setComputingUpstream p st) = Some (ss, sta)"
      and a3: "list_all continuesUpstream ss"
      and a4: "evaluateReference ?ev h ref sta = Some (r, stb)"
      and a5: "\<not> continuesUpstream r" by simp_all
    from upstreamLoop_skip [OF missing named a2 a3, of "ref # post" initialUpstream]
    obtain us1 where "?loop = upstreamLoop ?ev h ?sc (ref # post) us1 sta"
      using a1 by auto
    also from a4 a5 have "\<dots> = Some (Inl (case r of Unbuildable reason \<Rightarrow> UpstreamBlocked (path ref)
                 | other \<Rightarrow> UpstreamOutOfDate (path ref)), stb)"
      by (cases r) (simp_all add: Let_def)
    finally have "res = Inl (case r of Unbuildable reason \<Rightarrow> UpstreamBlocked (path ref)
                 | other \<Rightarrow> UpstreamOutOfDate (path ref))" using l by simp
    with res show "s = (case r of Unbuildable reason \<Rightarrow> UpstreamBlocked (path ref)
                 | other \<Rightarrow> UpstreamOutOfDate (path ref))" by simp
  next
    fix m'
    assume om: "s = OutputMissing m'"
    show "m' = m \<and> (\<exists>ss st1. upstreamStatuses ?ev h refs (setComputingUpstream p st) = Some (ss, st1) \<and>
        list_all continuesUpstream ss)"
    proof (cases res)
      case (Inl status)
      with res om have "status = OutputMissing m'" by simp
      with l Inl upstreamLoop_returns [of ?ev h ?sc refs initialUpstream "setComputingUpstream p st" status st1]
      show ?thesis by auto
    next
      case (Inr us)
      with res om have "m' = m" by simp
      with Inr l upstreamLoop_finished [of ?ev h ?sc refs initialUpstream "setComputingUpstream p st" us st1]
      show ?thesis by blast
    qed
  qed
qed

lemma outputsLoop_missing:
  assumes "\<forall>out \<in> set before. fileExists h w out \<and> \<not> modifiedTimeOf h w out < inTime"
    and "\<not> fileExists h w m"
  shows "missingOutputFileName (outputsLoop h w inTime (before @ m # rest) sc) = Some m"
  using assms by (induction before arbitrary: sc) (simp_all add: Let_def)


section \<open>The build order, the cycle diagnostics and the status priority\<close>







text \<open>
  Entered through a reference flagged circular, the cycle of a and b is not reported:
  the circular context is inherited by every visit below the flagged reference.
\<close>

lemma circular_entry_hides_cycle:
  "reportedCycles 4 (exampleHost flaggedConfigs) [''/r/tsconfig.json'']
     (exampleState plainOptions []) = Some 0"
  by (simp add: reportedCycles_def createBuildOrder_def initialLocals_def exampleHost_def
      flaggedConfigs_def cycleConfigs_def
      exampleState_def createSolutionBuilderState_def parseConfigFile_def exampleProject_def
      Let_def reportStatus_def eval_nat_numeral)

text \<open>
  Claim C3, as amended (status priority in the evaluator). Take a project that is not
  cached, whose inputs all exist, that is not a container, and whose scan of the expected
  outputs stops at a missing file: an expected output with a non-empty name does not
  exist, and every expected output listed before it exists and is not older than the
  newest input. If the first of the project's references whose status is neither
  ComputingUpstream nor UpToDate evaluates to Unbuildable, the project's status is
  UpstreamBlocked, naming that reference; if it evaluates to any other status, the
  project's status is UpstreamOutOfDate, naming it. The status is OutputMissing, naming
  the missing file, only when every reference has been evaluated and each was
  ComputingUpstream or UpToDate.
\<close>

theorem upstream_status_has_priority:
  assumes run: "getUpToDateStatus (Suc n) h (Some project) p st = Some (s, st')"
    and fresh: "projectStatus st p = None"
    and inputs: "newestInput h (world st) (fileNames project) (None, minimumDate) = Inr (inName, inTime)"
    and nonContainer: "\<not> (fileNames project = [] \<and> \<not> canJsonReportNoInutFiles h project)"
    and outputs: "getAllProjectOutputs h project = before @ m # rest"
    and present: "\<forall>out \<in> set before. fileExists h (world st) out \<and>
                    \<not> modifiedTimeOf h (world st) out < inTime"
    and absent: "\<not> fileExists h (world st) m"
    and named: "m \<noteq> []"
    and refs: "projectReferences project = Some refs"
  shows "(\<forall>pre ref post ss st1 r st2.
            refs = pre @ ref # post \<and>
            upstreamStatuses (getUpToDateStatus n h) h pre (setComputingUpstream p st) = Some (ss, st1) \<and>
            list_all continuesUpstream ss \<and>
            evaluateReference (getUpToDateStatus n h) h ref st1 = Some (r, st2) \<and>
            \<not> continuesUpstream r \<longrightarrow>
            s = (case r of Unbuildable reason \<Rightarrow> UpstreamBlocked (path ref)
                 | other \<Rightarrow> UpstreamOutOfDate (path ref))) \<and>
         (\<forall>m'. s = OutputMissing m' \<longrightarrow>
            m' = m \<and>
            (\<exists>ss st1. upstreamStatuses (getUpToDateStatus n h) h refs (setComputingUpstream p st)
                        = Some (ss, st1) \<and> list_all continuesUpstream ss))"
proof -
  have "missingOutputFileName (outputsLoop h (world st) inTime
                    (getAllProjectOutputs h project) initialScan) = Some m"
    unfolding outputs by (rule outputsLoop_missing [OF present absent])
  from worker_priority [OF run fresh inputs nonContainer this named refs] show ?thesis .
qed

theorem upstream_status_has_priority_witness:
  "getUpToDateStatus (Suc 2) (exampleHost blockedConfigs)
       (Some (exampleProject ''/p/tsconfig.json'' [''/r0/r0.ts'', ''/p/p.ts''] [''/r0/tsconfig.json'', ''/r2/tsconfig.json'']))
       ''/p/tsconfig.json'' (exampleState plainOptions sourceFiles) \<noteq> None \<and>
   fst (the (getUpToDateStatus (Suc 2) (exampleHost blockedConfigs)
       (Some (exampleProject ''/p/tsconfig.json'' [''/r0/r0.ts'', ''/p/p.ts''] [''/r0/tsconfig.json'', ''/r2/tsconfig.json'']))
       ''/p/tsconfig.json'' (exampleState plainOptions sourceFiles)))
     = UpstreamBlocked ''/r2/tsconfig.json'' \<and>
   map_option fst (evaluateReference (getUpToDateStatus 2 (exampleHost blockedConfigs))
       (exampleHost blockedConfigs) \<lparr>path = ''/r2/tsconfig.json'', prepend = False, circular = False\<rparr>
       (snd (the (upstreamStatuses (getUpToDateStatus 2 (exampleHost blockedConfigs))
          (exampleHost blockedConfigs) [\<lparr>path = ''/r0/tsconfig.json'', prepend = False, circular = False\<rparr>]
          (setComputingUpstream ''/p/tsconfig.json'' (exampleState plainOptions sourceFiles))))))
     = Some (Unbuildable ''/r2/r2.ts does not exist'')"
proof -
  let ?S = "exampleState plainOptions sourceFiles"
  let ?H = "exampleHost blockedConfigs"
  let ?r0 = "\<lparr>path = ''/r0/tsconfig.json'', prepend = False, circular = False\<rparr>"
  let ?r2 = "\<lparr>path = ''/r2/tsconfig.json'', prepend = False, circular = False\<rparr>"
  let ?cfg = "exampleProject ''/p/tsconfig.json'' [''/r0/r0.ts'', ''/p/p.ts''] [''/r0/tsconfig.json'', ''/r2/tsconfig.json'']"
  let ?R = "getUpToDateStatus (Suc 2) ?H (Some ?cfg) ''/p/tsconfig.json'' ?S"
  let ?U = "upstreamStatuses (getUpToDateStatus 2 ?H) ?H [?r0] (setComputingUpstream ''/p/tsconfig.json'' ?S)"
  let ?E = "evaluateReference (getUpToDateStatus 2 ?H) ?H ?r2 (snd (the ?U))"
  have v: "map_option fst ?R = Some (UpstreamBlocked ''/r2/tsconfig.json'')"
    by (simp add: example_defs evaluator_defs blockedConfigs_def eval_nat_numeral)
  then have run: "?R = Some (fst (the ?R), snd (the ?R))" by (cases ?R) auto
  have fresh: "projectStatus ?S ''/p/tsconfig.json'' = None" by (simp add: example_defs)
  have inputs: "newestInput ?H (world ?S) (fileNames ?cfg) (None, minimumDate) = Inr (Some ''/r0/r0.ts'', 10)"
    by (simp add: example_defs evaluator_defs)
  have nonContainer: "\<not> (fileNames ?cfg = [] \<and> \<not> canJsonReportNoInutFiles ?H ?cfg)"
    by (simp add: example_defs)
  have outputs: "getAllProjectOutputs ?H ?cfg = [''/r0/r0.ts.js''] @ ''/p/p.ts.js'' # []"
    by (simp add: example_defs)
  have present: "\<forall>out \<in> set [''/r0/r0.ts.js'']. fileExists ?H (world ?S) out \<and>
                    \<not> modifiedTimeOf ?H (world ?S) out < 10"
    by (simp add: example_defs modifiedTimeOf_def)
  have absent: "\<not> fileExists ?H (world ?S) ''/p/p.ts.js''"
    by (simp add: example_defs)
  have named: "''/p/p.ts.js'' \<noteq> []" by simp
  have refs: "projectReferences ?cfg = Some ([] @ ?r0 # [?r2])" by (simp add: example_defs)
  have u: "map_option fst ?U = Some [UpToDate \<lparr>newestInputFileTime = Some 10,
       newestInputFileName = Some ''/r0/r0.ts'',
       newestDeclarationFileContentChangedTime = Some minimumDate,
       newestOutputFileTime = Some 20, newestOutputFileName = Some ''/r0/r0.ts.js'',
       oldestOutputFileName = ''/r0/r0.ts.js''\<rparr>]"
    by (simp add: example_defs evaluator_defs blockedConfigs_def eval_nat_numeral
        setComputingUpstream_def)
  then have us: "?U = Some (fst (the ?U), snd (the ?U))" by (cases ?U) auto
  from u have cont: "list_all continuesUpstream (fst (the ?U))" by (cases ?U) auto
  have e: "map_option fst ?E = Some (Unbuildable ''/r2/r2.ts does not exist'')"
    by (simp add: example_defs evaluator_defs blockedConfigs_def eval_nat_numeral
        setComputingUpstream_def)
  then have es: "?E = Some (Unbuildable ''/r2/r2.ts does not exist'', snd (the ?E))"
    by (cases ?E) auto
  have refs2: "[?r0, ?r2] = [?r0] @ ?r2 # []" by simp
  have "projectReferences ?cfg = Some [?r0, ?r2]" by (simp add: example_defs)
  note t = upstream_status_has_priority [OF run fresh inputs nonContainer outputs present absent named this,
      THEN conjunct1, rule_format, of "[?r0]" ?r2 "[]" "fst (the ?U)" "snd (the ?U)"
      "Unbuildable ''/r2/r2.ts does not exist''" "snd (the ?E)"]
  have nc: "\<not> continuesUpstream (Unbuildable ''/r2/r2.ts does not exist'')" by simp
  have "fst (the ?R) = (case Unbuildable ''/r2/r2.ts does not exist'' of
       Unbuildable reason \<Rightarrow> UpstreamBlocked (path ?r2)
     | other \<Rightarrow> UpstreamOutOfDate (path ?r2))"
    by (rule t, intro conjI, rule refs2, rule us, rule cont, rule es, rule nc)
  then have b: "fst (the ?R) = UpstreamBlocked ''/r2/tsconfig.json''" by simp
  from v have "?R \<noteq> None" by (cases ?R) auto
  with b e show ?thesis by blast
qed


section \<open>Frames of the build actions and of the build driver\<close>

text \<open>The build actions keep the control fields; a dry one keeps the file system too.\<close>

lemma hostSetModifiedTime_control [simp]:
  "control (hostSetModifiedTime h f t st) = control st"
  by (simp add: hostSetModifiedTime_def)

lemma hostDeleteFile_control [simp]:
  "control (hostDeleteFile h f st) = control st"
  by (simp add: hostDeleteFile_def)

lemma hostWriteFile_control:
  "hostWriteFile h f t st = (d, st1) \<Longrightarrow> control st1 = control st"
  by (auto simp: hostWriteFile_def split: prod.splits)

lemma listEmittedFile_frame [simp]:
  "control (listEmittedFile h proj f st) = control st"
  "fileSystem (listEmittedFile h proj f st) = fileSystem st"
  by (simp_all add: listEmittedFile_def)

lemma listEmittedFiles'_frame [simp]:
  "control (listEmittedFiles' h proj em st) = control st"
proof -
  have "control (fold (\<lambda>(p, file). listEmittedFile h proj file) em st) = control st"
    by (induction em arbitrary: st) (simp_all add: case_prod_beta)
  then show ?thesis by (simp add: listEmittedFiles'_def)
qed

lemma touchOutputs_control:
  "touchOutputs h proj m skip t outs (prior, rv, st) = (prior', rv', st') \<Longrightarrow>
   control st' = control st"
proof (induction outs arbitrary: prior rv st)
  case Nil
  then show ?case by simp
next
  case (Cons out rest)
  show ?case
  proof (cases "case skip of None \<Rightarrow> False | Some sk \<Rightarrow> map_of sk (toPath h out) \<noteq> None")
    case True
    with Cons.prems have "touchOutputs h proj m skip t rest (prior, rv, st) = (prior', rv', st')"
      by simp
    from Cons.IH [OF this] show ?thesis .
  next
    case False
    with Cons.prems obtain prior1 st3 where
      r: "touchOutputs h proj m skip t rest (prior1, False, st3) = (prior', rv', st')"
      and c: "control st3 = control st"
      by (simp add: Let_def)
    from Cons.IH [OF r] c show ?thesis by simp
  qed
qed

lemma updateOutputTimestampsWorker_control:
  "updateOutputTimestampsWorker h proj prior m skip st = (prior', st') \<Longrightarrow>
   control st' = control st"
  by (auto simp: updateOutputTimestampsWorker_def Let_def
      split: if_splits prod.splits dest: touchOutputs_control)

lemma updateOutputTimestamps_control [simp]:
  "control (updateOutputTimestamps h proj p st) = control st"
  by (auto simp: updateOutputTimestamps_def split: prod.splits
      dest: updateOutputTimestampsWorker_control)

lemma buildErrors_frame:
  "buildErrors p diags flags ty st = (r, st') \<Longrightarrow>
   control st' = control st \<and> fileSystem st' = fileSystem st"
  by (auto simp: buildErrors_def Let_def)

lemma emitFiles_control:
  "emitFiles h fs (es, st) = (es', st') \<Longrightarrow> control st' = control st"
proof (induction fs arbitrary: es st)
  case Nil
  then show ?case by simp
next
  case (Cons out rest)
  obtain d st1 where w: "hostWriteFile h (name out) (fileText out) st = (d, st1)"
    by (cases "hostWriteFile h (name out) (fileText out) st")
  with Cons.prems obtain es4 where "emitFiles h rest (es4, st1) = (es', st')"
    by (simp add: Let_def)
  from Cons.IH [OF this] hostWriteFile_control [OF w] show ?case by simp
qed

lemma writeFiles_control:
  "writeFiles h fs (es, st) = (es', st') \<Longrightarrow> control st' = control st"
proof (induction fs arbitrary: es st)
  case Nil
  then show ?case by simp
next
  case (Cons out rest)
  obtain d st1 where w: "hostWriteFile h (name out) (fileText out) st = (d, st1)"
    by (cases "hostWriteFile h (name out) (fileText out) st")
  with Cons.prems obtain es2 where "writeFiles h rest (es2, st1) = (es', st')"
    by (simp add: Let_def)
  from Cons.IH [OF this] hostWriteFile_control [OF w] show ?case by simp
qed

lemma buildSingleProject_control:
  "buildSingleProject h proj p cfg st = (r, st') \<Longrightarrow> control st' = control st"
  by (auto simp: buildSingleProject_def Let_def
      split: if_splits prod.splits
      dest!: buildErrors_frame emitFiles_control updateOutputTimestampsWorker_control)

lemma updateBundle_control:
  "updateBundle h proj p cfg st = Some (r, st') \<Longrightarrow> control st' = control st"
  by (auto simp: updateBundle_def Let_def simp del: writeFiles.simps
      split: if_splits prod.splits sum.splits list.splits
      dest!: buildErrors_frame writeFiles_control updateOutputTimestampsWorker_control)

lemma buildAndQueue_control [simp]:
  "control (buildAndQueue h ip st) = control st"
  by (auto simp: buildAndQueue_def split: prod.splits dest: buildSingleProject_control)

lemma done'_control:
  "done' h ip st = Some st' \<Longrightarrow> control st' = control st"
  by (auto simp: done'_def split: InvalidatedProjectKind.splits option.splits prod.splits sum.splits
      dest: updateBundle_control)


lemma dispatchStep_refl: "dispatchStep st st"
  by (simp add: dispatchStep_def)

lemma dispatchStep_trans:
  "dispatchStep st st1 \<Longrightarrow> dispatchStep st1 st2 \<Longrightarrow> dispatchStep st st2"
  by (simp add: dispatchStep_def)

lemma dispatchStepD:
  assumes "dispatchStep st st'"
  shows "control st' = control st" "fileSystem st' = fileSystem st"
    "map_of (projectPendingBuild st) k = None \<Longrightarrow> map_of (projectPendingBuild st') k = None"
  using assms by (simp_all add: dispatchStep_def)

lemma dispatchStep_same:
  assumes "control st' = control st" "fileSystem st' = fileSystem st"
    "projectPendingBuild st' = projectPendingBuild st"
  shows "dispatchStep st st'"
  using assms by (simp add: dispatchStep_def)

lemma dispatchStep_skip:
  "dispatchStep st (deletePending p (reportAndStoreErrors p e st))"
  by (simp add: dispatchStep_def)

lemma dispatchStep_reportStatus:
  "dispatchStep st (reportStatus m a st)"
  by (simp add: dispatchStep_def)

lemma nextInvalidated_Cons:
  assumes "nextInvalidated fuel h order i (proj # rest) st = Some (r, st')"
  shows "(\<exists>S. dispatchStep st S \<and> map_of (projectPendingBuild S) (toPath h proj) = None \<and>
              nextInvalidated fuel h order (Suc i) rest S = Some (r, st')) \<or>
         (\<exists>ip. r = Some ip \<and> dispatchStep st st')"
proof (cases "map_of (projectPendingBuild st) (toPath h proj)")
  case None
  with assms have "nextInvalidated fuel h order (Suc i) rest st = Some (r, st')"
    by (simp add: Let_def)
  with None dispatchStep_refl show ?thesis by blast
next
  case (Some reloadLevel)
  obtain parsed st1 where p: "parseConfigFile h proj (toPath h proj) st = (parsed, st1)"
    by (cases "parseConfigFile h proj (toPath h proj) st")
  have d1: "dispatchStep st st1"
    by (rule dispatchStep_same) (rule parseConfigFile_frame [OF p])+
  show ?thesis
  proof (cases parsed)
    case None
    let ?S = "deletePending (toPath h proj) (reportParseConfigFileDiagnostic (toPath h proj) st1)"
    from assms Some p None have n: "nextInvalidated fuel h order (Suc i) rest ?S = Some (r, st')"
      by (simp add: Let_def)
    have "dispatchStep st1 ?S" by (simp add: dispatchStep_def)
    with d1 have "dispatchStep st ?S" by (rule dispatchStep_trans)
    moreover have "map_of (projectPendingBuild ?S) (toPath h proj) = None" by simp
    ultimately show ?thesis using n by blast
  next
    case (Some cfg0)
    note parsedSome = Some
    obtain cfg st2 where a: "applyReloadLevel h reloadLevel (toPath h proj) cfg0 st1 = (cfg, st2)"
      by (cases "applyReloadLevel h reloadLevel (toPath h proj) cfg0 st1")
    have d2: "dispatchStep st1 st2"
      by (rule dispatchStep_same) (rule applyReloadLevel_frame [OF a])+
    from assms \<open>map_of (projectPendingBuild st) (toPath h proj) = Some reloadLevel\<close> p parsedSome a
    obtain status st3 where g: "getUpToDateStatus fuel h (Some cfg) (toPath h proj) st2 = Some (status, st3)"
      by (cases "getUpToDateStatus fuel h (Some cfg) (toPath h proj) st2") (auto simp: Let_def)
    have d3: "dispatchStep st2 st3"
      by (rule dispatchStep_same) (rule getUpToDateStatus_frame [OF g])+
    let ?st4 = "verboseReportProjectStatus proj status st3"
    have d4: "dispatchStep st3 ?st4" by (simp add: dispatchStep_def)
    have d: "dispatchStep st ?st4"
      by (rule dispatchStep_trans [OF d1 dispatchStep_trans [OF d2 dispatchStep_trans [OF d3 d4]]])
    let ?skipped = "deletePending (toPath h proj) (reportAndStoreErrors (toPath h proj) (errors cfg) ?st4)"
    have ds: "dispatchStep st ?skipped"
      by (rule dispatchStep_trans [OF d dispatchStep_skip])
    have ps: "map_of (projectPendingBuild ?skipped) (toPath h proj) = None" by simp
    have dr: "dispatchStep st (reportStatus m a ?skipped)" for m a
      by (rule dispatchStep_trans [OF ds dispatchStep_reportStatus])
    have pr: "map_of (projectPendingBuild (reportStatus m a ?skipped)) (toPath h proj) = None" for m a
      by simp
    have dh: "dispatchStep st (reportAndStoreErrors (toPath h proj) (errors cfg) ?st4)"
      by (rule dispatchStep_trans [OF d]) (simp add: dispatchStep_def)
    from assms \<open>map_of (projectPendingBuild st) (toPath h proj) = Some reloadLevel\<close> p parsedSome a g
    have body:
      "(case status of
          UpToDate info \<Rightarrow>
            if \<not> force (buildOptions ?st4)
            then nextInvalidated fuel h order (Suc i) rest
                   (if dry (buildOptions ?skipped)
                    then reportStatus Project_0_is_up_to_date [proj] ?skipped
                    else ?skipped)
            else Some (Some \<lparr>kind = Build, handleProject = proj,
                               handleProjectPath = toPath h proj,
                               handleProjectIndex = i,
                               handleConfig = cfg, handleBuildOrder = order\<rparr>, ?st4)
        | UpToDateWithUpstreamTypes info \<Rightarrow>
            if \<not> force (buildOptions ?st4)
            then Some (Some \<lparr>kind = UpdateOutputFileStamps, handleProject = proj,
                               handleProjectPath = toPath h proj,
                               handleProjectIndex = i,
                               handleConfig = cfg, handleBuildOrder = order\<rparr>,
                       reportAndStoreErrors (toPath h proj) (errors cfg) ?st4)
            else Some (Some \<lparr>kind = Build, handleProject = proj,
                               handleProjectPath = toPath h proj,
                               handleProjectIndex = i,
                               handleConfig = cfg, handleBuildOrder = order\<rparr>, ?st4)
        | UpstreamBlocked upstreamProjectName \<Rightarrow>
            nextInvalidated fuel h order (Suc i) rest
              (if verbose (buildOptions ?skipped)
               then reportStatus Skipping_build_of_project_0_because_its_dependency_1_has_errors
                      [proj, upstreamProjectName] ?skipped
               else ?skipped)
        | ContainerOnly \<Rightarrow> nextInvalidated fuel h order (Suc i) rest ?skipped
        | other \<Rightarrow>
            Some (Some \<lparr>kind = (if needsBuild h status cfg ?st4 then Build else UpdateBundle),
                         handleProject = proj, handleProjectPath = toPath h proj,
                         handleProjectIndex = i,
                         handleConfig = cfg, handleBuildOrder = order\<rparr>, ?st4)) = Some (r, st')"
      by (simp add: Let_def split: UpToDateStatus.splits if_splits)
    show ?thesis
    proof (cases status)
      case (UpToDate info)
      show ?thesis
      proof (cases "force (buildOptions ?st4)")
        case True
        with body UpToDate have "r = Some \<lparr>kind = Build, handleProject = proj,
                               handleProjectPath = toPath h proj,
                               handleProjectIndex = i,
                               handleConfig = cfg, handleBuildOrder = order\<rparr>" "st' = ?st4"
          by simp_all
        with d show ?thesis by blast
      next
        case False
        show ?thesis
        proof (cases "dry (buildOptions ?skipped)")
          case True
          with body UpToDate False
          have "nextInvalidated fuel h order (Suc i) rest
                  (reportStatus Project_0_is_up_to_date [proj] ?skipped) = Some (r, st')"
            by simp
          with dr pr show ?thesis by blast
        next
          case nd: False
          with body UpToDate False
          have "nextInvalidated fuel h order (Suc i) rest ?skipped = Some (r, st')"
            by simp
          with ds ps show ?thesis by blast
        qed
      qed
    next
      case (UpToDateWithUpstreamTypes info)
      show ?thesis
      proof (cases "force (buildOptions ?st4)")
        case True
        with body UpToDateWithUpstreamTypes have "\<exists>ip. r = Some ip" "st' = ?st4" by auto
        with d show ?thesis by blast
      next
        case False
        with body UpToDateWithUpstreamTypes
        have "\<exists>ip. r = Some ip" "st' = reportAndStoreErrors (toPath h proj) (errors cfg) ?st4"
          by auto
        with dh show ?thesis by blast
      qed
    next
      case (UpstreamBlocked upstreamProjectName)
      show ?thesis
      proof (cases "verbose (buildOptions ?skipped)")
        case True
        with body UpstreamBlocked
        have "nextInvalidated fuel h order (Suc i) rest
                (reportStatus Skipping_build_of_project_0_because_its_dependency_1_has_errors
                      [proj, upstreamProjectName] ?skipped) = Some (r, st')"
          by simp
        with dr pr show ?thesis by blast
      next
        case False
        with body UpstreamBlocked
        have "nextInvalidated fuel h order (Suc i) rest ?skipped = Some (r, st')"
          by simp
        with ds ps show ?thesis by blast
      qed
    next
      case ContainerOnly
      with body have "nextInvalidated fuel h order (Suc i) rest ?skipped = Some (r, st')"
        by simp
      with ds ps show ?thesis by blast
    next
      case (Unbuildable x)
      with body have "\<exists>ip. r = Some ip" "st' = ?st4" by auto
      with d show ?thesis by blast
    next
      case (OutOfDateWithPrepend x y)
      with body have "\<exists>ip. r = Some ip" "st' = ?st4" by auto
      with d show ?thesis by blast
    next
      case (OutputMissing x)
      with body have "\<exists>ip. r = Some ip" "st' = ?st4" by auto
      with d show ?thesis by blast
    next
      case (OutOfDateWithSelf x y)
      with body have "\<exists>ip. r = Some ip" "st' = ?st4" by auto
      with d show ?thesis by blast
    next
      case (OutOfDateWithUpstream x y)
      with body have "\<exists>ip. r = Some ip" "st' = ?st4" by auto
      with d show ?thesis by blast
    next
      case (UpstreamOutOfDate x)
      with body have "\<exists>ip. r = Some ip" "st' = ?st4" by auto
      with d show ?thesis by blast
    next
      case ComputingUpstream
      with body have "\<exists>ip. r = Some ip" "st' = ?st4" by auto
      with d show ?thesis by blast
    next
      case (TsVersionOutputOfDate x)
      with body have "\<exists>ip. r = Some ip" "st' = ?st4" by auto
      with d show ?thesis by blast
    qed
  qed
qed

lemma nextInvalidated_step:
  "nextInvalidated fuel h order i rest st = Some (r, st') \<Longrightarrow>
   dispatchStep st st' \<and>
   (r = None \<longrightarrow> (\<forall>p \<in> set rest. map_of (projectPendingBuild st') (toPath h p) = None))"
proof (induction rest arbitrary: i st)
  case Nil
  then show ?case by (simp add: dispatchStep_refl)
next
  case (Cons proj rest)
  from nextInvalidated_Cons [OF Cons.prems]
  show ?case
  proof
    assume "\<exists>S. dispatchStep st S \<and> map_of (projectPendingBuild S) (toPath h proj) = None \<and>
              nextInvalidated fuel h order (Suc i) rest S = Some (r, st')"
    then obtain S where S: "dispatchStep st S" "map_of (projectPendingBuild S) (toPath h proj) = None"
      "nextInvalidated fuel h order (Suc i) rest S = Some (r, st')" by blast
    from Cons.IH [OF S(3)] have ih: "dispatchStep S st'"
      "r = None \<longrightarrow> (\<forall>p \<in> set rest. map_of (projectPendingBuild st') (toPath h p) = None)"
      by simp_all
    from dispatchStepD(3) [OF ih(1) S(2)]
    have "map_of (projectPendingBuild st') (toPath h proj) = None" .
    with ih(2) dispatchStep_trans [OF S(1) ih(1)] show ?thesis by simp
  next
    assume "\<exists>ip. r = Some ip \<and> dispatchStep st st'"
    then show ?thesis by auto
  qed
qed

lemma getNextInvalidatedProject_step:
  assumes "getNextInvalidatedProject fuel h order st = Some (r, st')"
  shows "dispatchStep st st'"
    and "r = None \<Longrightarrow> \<forall>p \<in> set order. map_of (projectPendingBuild st') (toPath h p) = None"
proof -
  show "dispatchStep st st'"
  proof (cases "projectPendingBuild st = []")
    case True
    with assms show ?thesis by (simp add: getNextInvalidatedProject_def dispatchStep_refl)
  next
    case False
    with assms have "nextInvalidated fuel h order 0 order st = Some (r, st')"
      by (simp add: getNextInvalidatedProject_def)
    from nextInvalidated_step [OF this] show ?thesis by simp
  qed
  show "\<forall>p \<in> set order. map_of (projectPendingBuild st') (toPath h p) = None" if "r = None"
  proof (cases "projectPendingBuild st = []")
    case True
    with assms show ?thesis by (simp add: getNextInvalidatedProject_def)
  next
    case False
    with assms have "nextInvalidated fuel h order 0 order st = Some (r, st')"
      by (simp add: getNextInvalidatedProject_def)
    from nextInvalidated_step [OF this] that show ?thesis by simp
  qed
qed

text \<open>When no project of the order is pending, the factory changes nothing.\<close>

lemma nextInvalidated_idle:
  "\<forall>p \<in> set rest. map_of (projectPendingBuild st) (toPath h p) = None \<Longrightarrow>
   nextInvalidated fuel h order i rest st = Some (None, st)"
  by (induction rest arbitrary: i) (simp_all add: Let_def)

lemma getNextInvalidatedProject_idle:
  "\<forall>p \<in> set order. map_of (projectPendingBuild st) (toPath h p) = None \<Longrightarrow>
   getNextInvalidatedProject fuel h order st = Some (None, st)"
  by (simp add: getNextInvalidatedProject_def nextInvalidated_idle)

text \<open>The build order functions and the phases of the build driver.\<close>

lemma createBuildOrder_frame:
  assumes "createBuildOrder fuel h roots st = Some (order, st')"
  shows "\<exists>c r. st' = st\<lparr>configFileCache := c, hostReports := r\<rparr>"
    and "parseablePaths h st' = parseablePaths h st"
    and "cacheExtends st st'"
proof -
  from createBuildOrder_spec [OF assms] obtain l' where
    s: "visitStep h initialLocals st l' st'" by blast
  from visitStepD(6) [OF s] show "\<exists>c r. st' = st\<lparr>configFileCache := c, hostReports := r\<rparr>" .
  from visitStepD(8) [OF s] show "parseablePaths h st' = parseablePaths h st" .
  from visitStepD(2) [OF s] show "cacheExtends st st'" .
qed

lemma getBuildOrder_memo:
  "buildOrder st = Some order \<Longrightarrow> getBuildOrder fuel h st = Some (order, st)"
  by (simp add: getBuildOrder_def)

lemma getBuildOrder_frame:
  assumes "getBuildOrder fuel h st = Some (order, st')"
  shows "\<exists>c r. st' = st\<lparr>configFileCache := c, hostReports := r, buildOrder := Some order\<rparr>"
proof (cases "buildOrder st")
  case None
  with assms obtain st1 where
    c: "createBuildOrder fuel h (map (resolveProjectName h) (rootNames st)) st = Some (order, st1)"
    and st': "st' = st1\<lparr>buildOrder := Some order\<rparr>"
    by (auto simp: getBuildOrder_def split: option.splits)
  from createBuildOrder_frame(1) [OF c] obtain c1 r1 where
    "st1 = st\<lparr>configFileCache := c1, hostReports := r1\<rparr>" by blast
  with st' have "st' = st\<lparr>configFileCache := c1, hostReports := r1, buildOrder := Some order\<rparr>"
    by simp
  then show ?thesis by blast
next
  case (Some order0)
  with assms have "order = order0" "st' = st" by (simp_all add: getBuildOrder_def)
  with Some have "st' = st\<lparr>configFileCache := configFileCache st, hostReports := hostReports st,
      buildOrder := Some order\<rparr>" by simp
  then show ?thesis by blast
qed

lemma getBuildOrderFor_frame:
  assumes "getBuildOrderFor fuel h project st = Some (r, st')"
  shows "\<exists>c rp bo. st' = st\<lparr>configFileCache := c, hostReports := rp, buildOrder := Some bo\<rparr>"
    and "project = None \<Longrightarrow> r = buildOrder st'"
proof -
  let ?rp = "(case project of
               None \<Rightarrow> None
             | Some p \<Rightarrow>
                 if p = [] \<or> resolveProjectName h p = [] then None
                 else Some (resolveProjectName h p))"
  from assms obtain order st1 where g: "getBuildOrder fuel h st = Some (order, st1)"
    by (cases "getBuildOrder fuel h st"; cases ?rp) (auto simp: getBuildOrderFor_def Let_def)
  from getBuildOrder_frame [OF g] obtain c1 r1 where
    st1: "st1 = st\<lparr>configFileCache := c1, hostReports := r1, buildOrder := Some order\<rparr>" by blast
  show "\<exists>c rp bo. st' = st\<lparr>configFileCache := c, hostReports := rp, buildOrder := Some bo\<rparr>"
  proof (cases ?rp)
    case None
    with assms g have "st' = st1" by (simp add: getBuildOrderFor_def Let_def)
    with st1 show ?thesis by blast
  next
    case (Some rp)
    show ?thesis
    proof (cases "list_ex (\<lambda>configFileName. toPath h configFileName = toPath h rp) order")
      case False
      with assms g Some have "st' = st1" by (simp add: getBuildOrderFor_def Let_def)
      with st1 show ?thesis by blast
    next
      case True
      with assms g Some obtain order2 where
        c: "createBuildOrder fuel h [rp] st1 = Some (order2, st')"
        by (cases "createBuildOrder fuel h [rp] st1") (auto simp: getBuildOrderFor_def Let_def)
      from createBuildOrder_frame(1) [OF c] obtain c2 r2 where
        "st' = st1\<lparr>configFileCache := c2, hostReports := r2\<rparr>" by blast
      with st1 have "st' = st\<lparr>configFileCache := c2, hostReports := r2, buildOrder := Some order\<rparr>"
        by simp
      then show ?thesis by blast
    qed
  qed
  show "r = buildOrder st'" if "project = None"
  proof -
    from that assms g have "r = Some order" "st' = st1" by (simp_all add: getBuildOrderFor_def Let_def)
    with st1 show ?thesis by simp
  qed
qed

lemma fold_setPending:
  "\<exists>q. fold (\<lambda>configFileName s.
            s\<lparr>projectPendingBuild :=
                AList.update (toPath h configFileName) ReloadLevel_None (projectPendingBuild s)\<rparr>)
          order st = st\<lparr>projectPendingBuild := q\<rparr>"
proof (induction order arbitrary: st)
  case Nil
  have "st = st\<lparr>projectPendingBuild := projectPendingBuild st\<rparr>" by simp
  then show ?case by (simp only: fold.simps id_apply) (rule exI)
next
  case (Cons a order)
  from Cons [of "st\<lparr>projectPendingBuild :=
                AList.update (toPath h a) ReloadLevel_None (projectPendingBuild st)\<rparr>"]
  obtain q where "fold (\<lambda>configFileName s.
            s\<lparr>projectPendingBuild :=
                AList.update (toPath h configFileName) ReloadLevel_None (projectPendingBuild s)\<rparr>)
          order (st\<lparr>projectPendingBuild :=
                AList.update (toPath h a) ReloadLevel_None (projectPendingBuild st)\<rparr>)
      = st\<lparr>projectPendingBuild := q\<rparr>" by auto
  then show ?case by auto
qed

lemma setupInitialBuild_frame:
  assumes "setupInitialBuild fuel h st = Some st'" and "buildOrder st = Some order"
  shows "\<exists>q r. st' = st\<lparr>allProjectBuildPending := False, projectPendingBuild := q, hostReports := r\<rparr>"
proof (cases "allProjectBuildPending st")
  case False
  with assms have "st' = st" by (simp add: setupInitialBuild_def)
  with False have "st' = st\<lparr>allProjectBuildPending := False,
      projectPendingBuild := projectPendingBuild st, hostReports := hostReports st\<rparr>" by simp
  then show ?thesis by blast
next
  case True
  let ?st0 = "st\<lparr>allProjectBuildPending := False\<rparr>"
  from assms(2) have "getBuildOrder fuel h ?st0 = Some (order, ?st0)"
    by (simp add: getBuildOrder_def)
  with assms(1) True have st': "st' = fold (\<lambda>configFileName s.
            s\<lparr>projectPendingBuild :=
                AList.update (toPath h configFileName) ReloadLevel_None (projectPendingBuild s)\<rparr>)
          order (reportBuildQueue h order ?st0)"
    by (simp add: setupInitialBuild_def Let_def)
  from fold_setPending [of h order "reportBuildQueue h order ?st0"] st'
  obtain q where "st' = (reportBuildQueue h order ?st0)\<lparr>projectPendingBuild := q\<rparr>" by auto
  then have "st' = st\<lparr>allProjectBuildPending := False, projectPendingBuild := q,
      hostReports := hostReports (reportBuildQueue h order ?st0)\<rparr>"
    by (simp add: reportBuildQueue_def reportStatus_def)
  then show ?thesis by blast
qed

lemma fold_reportErrors:
  "\<exists>r. fold (\<lambda>proj s. if toPath h proj \<notin> projectErrorsReported s
                        then reportErrors
                               (case map_of (diagnostics s) (toPath h proj) of
                                  None \<Rightarrow> [] | Some errs \<Rightarrow> errs) s
                        else s) order st = st\<lparr>hostReports := r\<rparr>"
proof (induction order arbitrary: st)
  case Nil
  have "st = st\<lparr>hostReports := hostReports st\<rparr>" by simp
  then show ?case by (simp only: fold.simps id_apply) (rule exI)
next
  case (Cons a order)
  let ?s1 = "if toPath h a \<notin> projectErrorsReported st
             then reportErrors (case map_of (diagnostics st) (toPath h a) of
                                  None \<Rightarrow> [] | Some errs \<Rightarrow> errs) st
             else st"
  from Cons [of ?s1] obtain r where
    r: "fold (\<lambda>proj s. if toPath h proj \<notin> projectErrorsReported s
                        then reportErrors
                               (case map_of (diagnostics s) (toPath h proj) of
                                  None \<Rightarrow> [] | Some errs \<Rightarrow> errs) s
                        else s) order ?s1 = ?s1\<lparr>hostReports := r\<rparr>" by blast
  have "?s1\<lparr>hostReports := r\<rparr> = st\<lparr>hostReports := r\<rparr>" by (simp add: reportErrors_def)
  with r show ?case by (simp only: fold_simps) (rule exI, simp)
qed

lemma reportErrorSummary_frame:
  assumes "reportErrorSummary fuel h st = Some st'" and "buildOrder st = Some order"
  shows "\<exists>ns r. st' = st\<lparr>needsSummary := ns, hostReports := r\<rparr>"
    and "\<not> needsSummary st' \<or> (\<not> watch st' \<and> \<not> hasReportErrorSummary h)"
proof -
  show "\<exists>ns r. st' = st\<lparr>needsSummary := ns, hostReports := r\<rparr>"
  proof (cases "\<not> needsSummary st \<or> (\<not> watch st \<and> \<not> hasReportErrorSummary h)")
    case True
    with assms have "st' = st" by (auto simp: reportErrorSummary_def)
    then have "st' = st\<lparr>needsSummary := needsSummary st, hostReports := hostReports st\<rparr>" by simp
    then show ?thesis by blast
  next
    case False
    let ?st0 = "st\<lparr>needsSummary := False\<rparr>"
    from assms(2) have g: "getBuildOrder fuel h ?st0 = Some (order, ?st0)"
      by (simp add: getBuildOrder_def)
    from fold_reportErrors [of h order ?st0] obtain r where
      r: "fold (\<lambda>proj s. if toPath h proj \<notin> projectErrorsReported s
                        then reportErrors
                               (case map_of (diagnostics s) (toPath h proj) of
                                  None \<Rightarrow> [] | Some errs \<Rightarrow> errs) s
                        else s) order ?st0 = ?st0\<lparr>hostReports := r\<rparr>" by blast
    from assms(1) False g r obtain r' where "st' = ?st0\<lparr>hostReports := r'\<rparr>"
      by (auto simp: reportErrorSummary_def Let_def)
    then show ?thesis by blast
  qed
  show "\<not> needsSummary st' \<or> (\<not> watch st' \<and> \<not> hasReportErrorSummary h)"
  proof (cases "\<not> needsSummary st \<or> (\<not> watch st \<and> \<not> hasReportErrorSummary h)")
    case True
    with assms have "st' = st" by (auto simp: reportErrorSummary_def)
    with True show ?thesis by simp
  next
    case False
    let ?st0 = "st\<lparr>needsSummary := False\<rparr>"
    from assms(2) have g: "getBuildOrder fuel h ?st0 = Some (order, ?st0)"
      by (simp add: getBuildOrder_def)
    from fold_reportErrors [of h order ?st0] obtain r where
      r: "fold (\<lambda>proj s. if toPath h proj \<notin> projectErrorsReported s
                        then reportErrors
                               (case map_of (diagnostics s) (toPath h proj) of
                                  None \<Rightarrow> [] | Some errs \<Rightarrow> errs) s
                        else s) order ?st0 = ?st0\<lparr>hostReports := r\<rparr>" by blast
    from assms(1) False g r have "\<not> needsSummary st'"
      by (auto simp: reportErrorSummary_def Let_def)
    then show ?thesis by simp
  qed
qed

lemma fold_parse:
  "\<exists>c. fold (\<lambda>resolved s. snd (parseConfigFile h resolved (toPath h resolved) s)) order st
        = st\<lparr>configFileCache := c\<rparr>"
proof (induction order arbitrary: st)
  case Nil
  have "st = st\<lparr>configFileCache := configFileCache st\<rparr>" by simp
  then show ?case by (simp only: fold.simps id_apply) (rule exI)
next
  case (Cons a order)
  obtain r st1 where p: "parseConfigFile h a (toPath h a) st = (r, st1)"
    by (cases "parseConfigFile h a (toPath h a) st")
  from parseConfigFile_cases(1) [OF p] obtain c1 where st1: "st1 = st\<lparr>configFileCache := c1\<rparr>"
    by blast
  from Cons [of st1] obtain c2 where
    "fold (\<lambda>resolved s. snd (parseConfigFile h resolved (toPath h resolved) s)) order st1
        = st1\<lparr>configFileCache := c2\<rparr>" by blast
  with p st1 have "fold (\<lambda>resolved s. snd (parseConfigFile h resolved (toPath h resolved) s))
      (a # order) st = st\<lparr>configFileCache := c2\<rparr>" by simp
  then show ?case by blast
qed

lemma startWatching_frame:
  assumes "startWatching fuel h st = Some st'" and "buildOrder st = Some order"
  shows "\<exists>c. st' = st\<lparr>watchAllProjectsPending := False, configFileCache := c\<rparr>"
proof (cases "watchAllProjectsPending st")
  case False
  with assms have "st' = st" by (simp add: startWatching_def)
  with False have "st' = st\<lparr>watchAllProjectsPending := False, configFileCache := configFileCache st\<rparr>"
    by simp
  then show ?thesis by blast
next
  case True
  let ?st0 = "st\<lparr>watchAllProjectsPending := False\<rparr>"
  from assms(2) have g: "getBuildOrder fuel h ?st0 = Some (order, ?st0)"
    by (simp add: getBuildOrder_def)
  from fold_parse [of h order ?st0] obtain c where
    "fold (\<lambda>resolved s. snd (parseConfigFile h resolved (toPath h resolved) s)) order ?st0
        = ?st0\<lparr>configFileCache := c\<rparr>" by blast
  with assms(1) True g have "st' = st\<lparr>watchAllProjectsPending := False, configFileCache := c\<rparr>"
    by (simp add: startWatching_def)
  then show ?thesis by blast
qed

lemma buildLoop_spec:
  "buildLoop fuel h order counts st = Some (counts', st') \<Longrightarrow>
   control st' = control st \<and>
   (\<forall>p \<in> set order. map_of (projectPendingBuild st') (toPath h p) = None)"
proof (induction fuel arbitrary: counts st)
  case 0
  then show ?case by simp
next
  case (Suc fuel)
  obtain successfulProjects errorProjects where counts: "counts = (successfulProjects, errorProjects)"
    by (cases counts)
  from Suc.prems counts obtain r st1 where
    g: "getNextInvalidatedProject (Suc fuel) h order st = Some (r, st1)"
    by (cases "getNextInvalidatedProject (Suc fuel) h order st") auto
  note d1 = dispatchStepD(1) [OF getNextInvalidatedProject_step(1) [OF g]]
  show ?case
  proof (cases r)
    case None
    with Suc.prems counts g have "st' = st1" by simp
    with d1 getNextInvalidatedProject_step(2) [OF g None] show ?thesis by simp
  next
    case (Some ip)
    with Suc.prems counts g obtain st2 where dn: "done' h ip st1 = Some st2"
      by (cases "done' h ip st1") auto
    from Suc.prems counts g Some dn obtain counts2 where
      "buildLoop fuel h order counts2 st2 = Some (counts', st')"
      by (auto split: if_splits)
    from Suc.IH [OF this] done'_control [OF dn] d1 show ?thesis by simp
  qed
qed


lemma build_phases:
  assumes "build fuel h project st = Some (e, st')"
  shows "(\<exists>st1. getBuildOrderFor fuel h project st = Some (None, st1) \<and> st' = st1 \<and>
            e = ExitStatus_InvalidProject_OutputsSkipped) \<or>
         (\<exists>order st1 st2 counts st3 st4.
            getBuildOrderFor fuel h project st = Some (Some order, st1) \<and>
            setupInitialBuild fuel h st1 = Some st2 \<and>
            buildLoop fuel h order (0, 0) st2 = Some (counts, st3) \<and>
            reportErrorSummary fuel h st3 = Some st4 \<and>
            startWatching fuel h st4 = Some st')"
proof -
  from assms obtain r st1 where g: "getBuildOrderFor fuel h project st = Some (r, st1)"
    by (cases "getBuildOrderFor fuel h project st") (auto simp: build_def)
  show ?thesis
  proof (cases r)
    case None
    with assms g show ?thesis by (simp add: build_def)
  next
    case (Some order)
    from assms g Some obtain st2 where s: "setupInitialBuild fuel h st1 = Some st2"
      by (cases "setupInitialBuild fuel h st1") (auto simp: build_def)
    from assms g Some s obtain counts st3 where l: "buildLoop fuel h order (0, 0) st2 = Some (counts, st3)"
      by (cases "buildLoop fuel h order (0, 0) st2") (auto simp: build_def)
    from assms g Some s l obtain st4 where r4: "reportErrorSummary fuel h st3 = Some st4"
      by (cases "reportErrorSummary fuel h st3") (auto simp: build_def split: prod.splits)
    from assms g Some s l r4 have "startWatching fuel h st4 = Some st'"
      by (cases "startWatching fuel h st4") (auto simp: build_def split: prod.splits)
    with g Some s l r4 show ?thesis by blast
  qed
qed


lemma build_settles:
  assumes b: "build fuel h None st = Some (e, st')"
  shows "settled h st'"
proof -
  from build_phases [OF b] show ?thesis
  proof
    assume "\<exists>st1. getBuildOrderFor fuel h None st = Some (None, st1) \<and> st' = st1 \<and>
            e = ExitStatus_InvalidProject_OutputsSkipped"
    then obtain st1 where g: "getBuildOrderFor fuel h None st = Some (None, st1)" by blast
    from getBuildOrderFor_frame(1) [OF g] getBuildOrderFor_frame(2) [OF g refl]
    have False by auto
    then show ?thesis ..
  next
    assume "\<exists>order st1 st2 counts st3 st4.
            getBuildOrderFor fuel h None st = Some (Some order, st1) \<and>
            setupInitialBuild fuel h st1 = Some st2 \<and>
            buildLoop fuel h order (0, 0) st2 = Some (counts, st3) \<and>
            reportErrorSummary fuel h st3 = Some st4 \<and>
            startWatching fuel h st4 = Some st'"
    then obtain order st1 st2 counts st3 st4 where
      g: "getBuildOrderFor fuel h None st = Some (Some order, st1)" and
      s: "setupInitialBuild fuel h st1 = Some st2" and
      l: "buildLoop fuel h order (0, 0) st2 = Some (counts, st3)" and
      r: "reportErrorSummary fuel h st3 = Some st4" and
      w: "startWatching fuel h st4 = Some st'" by blast
    from getBuildOrderFor_frame(2) [OF g refl] have bo1: "buildOrder st1 = Some order" by simp
    from setupInitialBuild_frame [OF s bo1] obtain q2 r2 where
      st2: "st2 = st1\<lparr>allProjectBuildPending := False, projectPendingBuild := q2, hostReports := r2\<rparr>"
      by blast
    from buildLoop_spec [OF l] have c3: "control st3 = control st2"
      and p3: "\<forall>p \<in> set order. map_of (projectPendingBuild st3) (toPath h p) = None" by simp_all
    from control_fields(3) [OF c3] st2 bo1 have bo3: "buildOrder st3 = Some order" by simp
    from control_fields(4) [OF c3] st2 have a3: "\<not> allProjectBuildPending st3" by simp
    from reportErrorSummary_frame(1) [OF r bo3] obtain ns r4 where
      st4: "st4 = st3\<lparr>needsSummary := ns, hostReports := r4\<rparr>" by blast
    note n4 = reportErrorSummary_frame(2) [OF r bo3]
    from st4 bo3 have bo4: "buildOrder st4 = Some order" by simp
    from startWatching_frame [OF w bo4] obtain c5 where
      st5: "st' = st4\<lparr>watchAllProjectsPending := False, configFileCache := c5\<rparr>" by blast
    from st5 st4 a3 have A: "\<not> allProjectBuildPending st'" by simp
    from st5 have W: "\<not> watchAllProjectsPending st'" by simp
    from st5 n4 have N: "\<not> needsSummary st' \<or> (\<not> watch st' \<and> \<not> hasReportErrorSummary h)" by simp
    from st5 st4 bo3 have B: "buildOrder st' = Some order" by simp
    from st5 st4 p3 have P: "list_all (\<lambda>p. map_of (projectPendingBuild st') (toPath h p) = None) order"
      by (simp add: list_all_iff)
    from A W N B P show ?thesis unfolding settled_def by blast
  qed
qed

lemma settled_build:
  assumes s: "settled h st" and fuel: "0 < fuel"
  shows "build fuel h None st = Some (ExitStatus_Success, st)"
    and "\<exists>order. buildOrder st = Some order \<and>
           getNextInvalidatedProject fuel h order st = Some (None, st)"
proof -
  from s obtain order where bo: "buildOrder st = Some order"
    and idle: "\<forall>p \<in> set order. map_of (projectPendingBuild st) (toPath h p) = None"
    and A: "\<not> allProjectBuildPending st" and W: "\<not> watchAllProjectsPending st"
    and N: "\<not> needsSummary st \<or> (\<not> watch st \<and> \<not> hasReportErrorSummary h)"
    unfolding settled_def by (auto simp: list_all_iff)
  from fuel obtain n where n: "fuel = Suc n" by (cases fuel) auto
  have g: "getBuildOrderFor fuel h None st = Some (Some order, st)"
    using bo by (simp add: getBuildOrderFor_def getBuildOrder_def)
  have i: "setupInitialBuild fuel h st = Some st" using A by (simp add: setupInitialBuild_def)
  have d: "getNextInvalidatedProject fuel h order st = Some (None, st)"
    by (rule getNextInvalidatedProject_idle [OF idle])
  then have l: "buildLoop fuel h order (0, 0) st = Some ((0, 0), st)" unfolding n by simp
  have r: "reportErrorSummary fuel h st = Some st" using N by (auto simp: reportErrorSummary_def)
  have w: "startWatching fuel h st = Some st" using W by (simp add: startWatching_def)
  from g i l r w show "build fuel h None st = Some (ExitStatus_Success, st)"
    by (simp add: build_def)
  from bo d show "\<exists>order. buildOrder st = Some order \<and>
           getNextInvalidatedProject fuel h order st = Some (None, st)" by blast
qed





section \<open>Dry runs\<close>

lemmas driver_defs = build_def getBuildOrderFor_def getBuildOrder_def createBuildOrder_def
  initialLocals_def setupInitialBuild_def reportBuildQueue_def getNextInvalidatedProject_def
  applyReloadLevel_def verboseReportProjectStatus_def needsBuild_def done'_def buildAndQueue_def
  buildSingleProject_def queueReferencingProjects_def queueReferencingProject_def
  restatusReferencingProject_def addProjToQueue_def deletePending_def reportAndStoreErrors_def
  reportErrors_def reportStatus_def reportErrorSummary_def startWatching_def
  BuildResultFlags_Success_def BuildResultFlags_AnyErrors_def
  BuildResultFlags_ConfigFileErrors_def BuildResultFlags_SyntaxErrors_def
  BuildResultFlags_TypeErrors_def BuildResultFlags_DeclarationEmitErrors_def
  BuildResultFlags_EmitErrors_def BuildResultFlags_DeclarationOutputUnchanged_def






section \<open>Cleaning\<close>

text \<open>Cleaning keeps the diagnostic stored for a configuration that failed to parse.\<close>

lemma cleanOutputs_frame:
  "cleanOutputs h p outs (f, st) = (f', st') \<Longrightarrow>
   configFileCache st' = configFileCache st \<and> hostReports st' = hostReports st \<and>
   (\<forall>q. q \<noteq> p \<longrightarrow> map_of (diagnostics st') q = map_of (diagnostics st) q)"
proof (induction outs arbitrary: f st)
  case Nil
  then show ?case by simp
next
  case (Cons out rest)
  show ?case
  proof (cases "fileExists h (world st) out")
    case False
    with Cons.prems have "cleanOutputs h p rest (f, st) = (f', st')" by simp
    from Cons.IH [OF this] show ?thesis .
  next
    case True
    show ?thesis
    proof (cases f)
      case (Some collected)
      with True Cons.prems have "cleanOutputs h p rest (Some (collected @ [out]), st) = (f', st')"
        by simp
      from Cons.IH [OF this] show ?thesis .
    next
      case None
      let ?st1 = "invalidateProject p ReloadLevel_None (hostDeleteFile h out st)"
      from None True Cons.prems have "cleanOutputs h p rest (None, ?st1) = (f', st')" by simp
      from Cons.IH [OF this] have "configFileCache st' = configFileCache ?st1"
        "hostReports st' = hostReports ?st1"
        "\<forall>q. q \<noteq> p \<longrightarrow> map_of (diagnostics st') q = map_of (diagnostics ?st1) q" by simp_all
      moreover have "configFileCache ?st1 = configFileCache st" "hostReports ?st1 = hostReports st"
        "\<forall>q. q \<noteq> p \<longrightarrow> map_of (diagnostics ?st1) q = map_of (diagnostics st) q"
        by (simp_all add: invalidateProject_def Let_def addProjToQueue_def clearProjectStatus_def
            hostDeleteFile_def delete_conv split: option.splits)
      ultimately show ?thesis by simp
    qed
  qed
qed

lemma cleanProjects_Cons:
  assumes "cleanProjects h (proj # rest) (f, st) = (f', st')"
  obtains (failed) st1 d where "parseConfigFile h proj (toPath h proj) st = (None, st1)"
      "configFileCache st1 (toPath h proj) = Some (Inl d)"
      "cleanProjects h rest (f, reportAndStoreErrors (toPath h proj) [d] st1) = (f', st')"
    | (parsed) cfg st1 f2 st2 where "parseConfigFile h proj (toPath h proj) st = (Some cfg, st1)"
      "configFileCache st1 (toPath h proj) = Some (Inr cfg)"
      "cleanOutputs h (toPath h proj) (getAllProjectOutputs h cfg) (f, st1) = (f2, st2)"
      "cleanProjects h rest (f2, st2) = (f', st')"
proof -
  obtain r st1 where p: "parseConfigFile h proj (toPath h proj) st = (r, st1)"
    by (cases "parseConfigFile h proj (toPath h proj) st")
  from parseConfigFile_cases(3) [OF p] obtain e where
    e: "configFileCache st1 (toPath h proj) = Some e"
       "r = (case e of Inr cfg \<Rightarrow> Some cfg | Inl d \<Rightarrow> None)" by blast
  show thesis
  proof (cases e)
    case (Inl d)
    with e have r: "r = None" by simp
    from e Inl have "reportParseConfigFileDiagnostic (toPath h proj) st1
        = reportAndStoreErrors (toPath h proj) [d] st1"
      by (simp add: reportParseConfigFileDiagnostic_def)
    with assms p r have "cleanProjects h rest (f, reportAndStoreErrors (toPath h proj) [d] st1) = (f', st')"
      by (simp add: Let_def)
    with p r e Inl show thesis by (intro failed [of st1 d]) simp_all
  next
    case (Inr cfg)
    with e have r: "r = Some cfg" by simp
    obtain f2 st2 where c: "cleanOutputs h (toPath h proj) (getAllProjectOutputs h cfg) (f, st1) = (f2, st2)"
      by (cases "cleanOutputs h (toPath h proj) (getAllProjectOutputs h cfg) (f, st1)")
    with assms p r have "cleanProjects h rest (f2, st2) = (f', st')" by (simp add: Let_def)
    with p r e Inr c show thesis by (intro parsed [of cfg st1 f2 st2]) simp_all
  qed
qed

lemma cleanProjects_keeps:
  "cleanProjects h projs (f, st) = (f', st') \<Longrightarrow> configFileCache st q = Some (Inl d) \<Longrightarrow>
   map_of (diagnostics st) q = Some [d] \<Longrightarrow> ReportDiagnostic d \<in> set (hostReports st) \<Longrightarrow>
   configFileCache st' q = Some (Inl d) \<and> map_of (diagnostics st') q = Some [d] \<and>
   ReportDiagnostic d \<in> set (hostReports st')"
proof (induction projs arbitrary: f st)
  case Nil
  then show ?case by simp
next
  case (Cons proj rest)
  from Cons.prems(1) show ?case
  proof (cases rule: cleanProjects_Cons)
    case (failed st1 d1)
    from parseConfigFile_cases(2) [OF failed(1)] Cons.prems(2)
    have c1: "configFileCache st1 q = Some (Inl d)" unfolding cacheExtends_def by blast
    from parseConfigFile_cases(1) [OF failed(1)] obtain cc where st1: "st1 = st\<lparr>configFileCache := cc\<rparr>"
      by blast
    let ?st2 = "reportAndStoreErrors (toPath h proj) [d1] st1"
    have c2: "configFileCache ?st2 q = Some (Inl d)"
      using c1 by (simp add: reportAndStoreErrors_def reportErrors_def Let_def)
    have r2: "ReportDiagnostic d \<in> set (hostReports ?st2)"
      using Cons.prems(4) st1 by (simp add: reportAndStoreErrors_def reportErrors_def Let_def)
    have d2: "map_of (diagnostics ?st2) q = Some [d]"
    proof (cases "toPath h proj = q")
      case True
      with failed(2) c1 have "d1 = d" by simp
      with True show ?thesis
        by (simp add: reportAndStoreErrors_def reportErrors_def Let_def update_conv)
    next
      case False
      with Cons.prems(3) st1 show ?thesis
        by (simp add: reportAndStoreErrors_def reportErrors_def Let_def update_conv)
    qed
    from Cons.IH [OF failed(3) c2 d2 r2] show ?thesis .
  next
    case (parsed cfg st1 f2 st2)
    from parseConfigFile_cases(2) [OF parsed(1)] Cons.prems(2)
    have c1: "configFileCache st1 q = Some (Inl d)" unfolding cacheExtends_def by blast
    with parsed(2) have ne: "q \<noteq> toPath h proj" by auto
    from parseConfigFile_cases(1) [OF parsed(1)] obtain cc where st1: "st1 = st\<lparr>configFileCache := cc\<rparr>"
      by blast
    from cleanOutputs_frame [OF parsed(3)] have fr: "configFileCache st2 = configFileCache st1"
      "hostReports st2 = hostReports st1"
      "\<forall>q. q \<noteq> toPath h proj \<longrightarrow> map_of (diagnostics st2) q = map_of (diagnostics st1) q"
      by simp_all
    from fr(1) c1 have c2: "configFileCache st2 q = Some (Inl d)" by simp
    from fr(2) Cons.prems(4) st1 have r2: "ReportDiagnostic d \<in> set (hostReports st2)" by simp
    from fr(3) ne Cons.prems(3) st1 have d2: "map_of (diagnostics st2) q = Some [d]" by simp
    from Cons.IH [OF parsed(4) c2 d2 r2] show ?thesis .
  qed
qed

lemma cleanProjects_extends:
  "cleanProjects h projs (f, st) = (f', st') \<Longrightarrow> cacheExtends st st'"
proof (induction projs arbitrary: f st)
  case Nil
  then show ?case by (simp add: cacheExtends_refl)
next
  case (Cons proj rest)
  from Cons.prems(1) show ?case
  proof (cases rule: cleanProjects_Cons)
    case (failed st1 d1)
    have "cacheExtends st1 (reportAndStoreErrors (toPath h proj) [d1] st1)"
      by (simp add: cacheExtends_def reportAndStoreErrors_def reportErrors_def Let_def)
    from cacheExtends_trans [OF cacheExtends_trans [OF parseConfigFile_cases(2) [OF failed(1)] this]
        Cons.IH [OF failed(3)]]
    show ?thesis .
  next
    case (parsed cfg st1 f2 st2)
    from cleanOutputs_frame [OF parsed(3)] have "cacheExtends st1 st2"
      by (simp add: cacheExtends_def)
    from cacheExtends_trans [OF cacheExtends_trans [OF parseConfigFile_cases(2) [OF parsed(1)] this]
        Cons.IH [OF parsed(4)]]
    show ?thesis .
  qed
qed

lemma cleanProjects_stores:
  "cleanProjects h projs (f, st) = (f', st') \<Longrightarrow>
   \<forall>n \<in> set projs. \<forall>d. configFileCache st' (toPath h n) = Some (Inl d) \<longrightarrow>
      map_of (diagnostics st') (toPath h n) = Some [d] \<and> ReportDiagnostic d \<in> set (hostReports st')"
proof (induction projs arbitrary: f st)
  case Nil
  then show ?case by simp
next
  case (Cons proj rest)
  from Cons.prems(1) show ?case
  proof (cases rule: cleanProjects_Cons)
    case (failed st1 d1)
    let ?st2 = "reportAndStoreErrors (toPath h proj) [d1] st1"
    have c2: "configFileCache ?st2 (toPath h proj) = Some (Inl d1)"
      using failed(2) by (simp add: reportAndStoreErrors_def reportErrors_def Let_def)
    have d2: "map_of (diagnostics ?st2) (toPath h proj) = Some [d1]"
      by (simp add: reportAndStoreErrors_def reportErrors_def Let_def update_conv)
    have r2: "ReportDiagnostic d1 \<in> set (hostReports ?st2)"
      by (simp add: reportAndStoreErrors_def reportErrors_def Let_def)
    from cleanProjects_keeps [OF failed(3) c2 d2 r2]
    have k: "configFileCache st' (toPath h proj) = Some (Inl d1)"
      "map_of (diagnostics st') (toPath h proj) = Some [d1]"
      "ReportDiagnostic d1 \<in> set (hostReports st')" by simp_all
    from k Cons.IH [OF failed(3)] show ?thesis by simp
  next
    case (parsed cfg st1 f2 st2)
    from cleanOutputs_frame [OF parsed(3)] parsed(2)
    have "configFileCache st2 (toPath h proj) = Some (Inr cfg)" by simp
    with cleanProjects_extends [OF parsed(4)]
    have "configFileCache st' (toPath h proj) = Some (Inr cfg)" unfolding cacheExtends_def by blast
    with Cons.IH [OF parsed(4)] show ?thesis by simp
  qed
qed

lemma getBuildOrder_total:
  assumes "finite (parseablePaths h st)" and "card (parseablePaths h st) < fuel"
  shows "\<exists>order st1. getBuildOrder fuel h st = Some (order, st1) \<and>
           parseablePaths h st1 = parseablePaths h st"
proof (cases "buildOrder st")
  case (Some order)
  then show ?thesis by (simp add: getBuildOrder_def)
next
  case None
  from createBuildOrder_total [OF assms, of "map (resolveProjectName h) (rootNames st)"]
  obtain order st1 where
    c: "createBuildOrder fuel h (map (resolveProjectName h) (rootNames st)) st = Some (order, st1)"
    by force
  from createBuildOrder_frame(2) [OF c]
  have "parseablePaths h (st1\<lparr>buildOrder := Some order\<rparr>) = parseablePaths h st"
    by (simp add: parseablePaths_def)
  with None c show ?thesis by (simp add: getBuildOrder_def)
qed

lemma getBuildOrderFor_total:
  assumes "finite (parseablePaths h st)" and "card (parseablePaths h st) < fuel"
  shows "\<exists>order0 st0 r st1.
           getBuildOrder fuel h st = Some (order0, st0) \<and>
           getBuildOrderFor fuel h project st = Some (r, st1) \<and>
           (r = None \<longleftrightarrow>
              (\<exists>rp. requestedProject h project = Some rp \<and> toPath h rp \<notin> toPath h ` set order0))"
proof -
  from getBuildOrder_total [OF assms] obtain order0 st0 where
    g: "getBuildOrder fuel h st = Some (order0, st0)"
    and pp: "parseablePaths h st0 = parseablePaths h st" by blast
  have le: "list_ex (\<lambda>configFileName. toPath h configFileName = toPath h rp) order0
      \<longleftrightarrow> toPath h rp \<in> toPath h ` set order0" for rp
  proof
    assume "list_ex (\<lambda>configFileName. toPath h configFileName = toPath h rp) order0"
    then obtain n where n: "n \<in> set order0" "toPath h n = toPath h rp"
      unfolding list_ex_iff by blast
    from n(1) have "toPath h n \<in> toPath h ` set order0" by (rule imageI)
    with n(2) show "toPath h rp \<in> toPath h ` set order0" by simp
  next
    assume "toPath h rp \<in> toPath h ` set order0"
    then obtain n where "n \<in> set order0" "toPath h rp = toPath h n" by (rule imageE)
    then show "list_ex (\<lambda>configFileName. toPath h configFileName = toPath h rp) order0"
      unfolding list_ex_iff by (intro bexI [of _ n]) simp_all
  qed
  show ?thesis
  proof (cases "requestedProject h project")
    case None
    with g have "getBuildOrderFor fuel h project st = Some (Some order0, st0)"
      by (simp add: getBuildOrderFor_def requestedProject_def Let_def)
    with g None show ?thesis by simp
  next
    case (Some rp)
    show ?thesis
    proof (cases "toPath h rp \<in> toPath h ` set order0")
      case False
      with g Some le [of rp] have "getBuildOrderFor fuel h project st = Some (None, st0)"
        by (simp add: getBuildOrderFor_def requestedProject_def Let_def)
      with g Some False show ?thesis by simp
    next
      case True
      from assms pp have "finite (parseablePaths h st0)" "card (parseablePaths h st0) < fuel"
        by simp_all
      from createBuildOrder_total [OF this, of "[rp]"] obtain order2 st2 where
        c: "createBuildOrder fuel h [rp] st0 = Some (order2, st2)" by force
      with g Some True le [of rp]
      have "getBuildOrderFor fuel h project st = Some (Some order2, st2)"
        by (simp add: getBuildOrderFor_def requestedProject_def Let_def)
      with g Some True show ?thesis by simp
    qed
  qed
qed


lemma exampleBuilder_parseable:
  "finite (parseablePaths (exampleHost configs) (exampleBuilder roots opts fs))"
  "card (parseablePaths (exampleHost configs) (exampleBuilder roots opts fs)) \<le> length configs"
proof -
  have e: "parseablePaths (exampleHost configs) (exampleBuilder roots opts fs)
      = parseablePaths (exampleHost configs) (exampleState opts fs)"
    by (simp add: parseablePaths_def exampleBuilder_def)
  show "finite (parseablePaths (exampleHost configs) (exampleBuilder roots opts fs))"
    unfolding e by (rule exampleHost_finite)
  show "card (parseablePaths (exampleHost configs) (exampleBuilder roots opts fs)) \<le> length configs"
    unfolding e by (rule exampleHost_card)
qed

text \<open>
  Claim C10 (exit status of clean). On every finite project graph \<open>clean\<close> returns, once
  the fuel exceeds the number of parseable projects. It returns
  InvalidProject_OutputsSkipped exactly when a project is requested and is not in the
  build order of the solution, and Success otherwise, whether or not configurations fail
  to parse: for every project of the cleaned order whose cached configuration is a
  diagnostic, that diagnostic has been reported and is stored as the project's
  diagnostics.
\<close>

theorem clean_exit_status:
  assumes "finite (parseablePaths h st)" and "card (parseablePaths h st) < fuel"
  shows "\<exists>order0 st0 r st1 exit st'.
           getBuildOrder fuel h st = Some (order0, st0) \<and>
           getBuildOrderFor fuel h project st = Some (r, st1) \<and>
           clean fuel h project st = Some (exit, st') \<and>
           (r = None \<longleftrightarrow>
              (\<exists>rp. requestedProject h project = Some rp \<and> toPath h rp \<notin> toPath h ` set order0)) \<and>
           (exit = ExitStatus_InvalidProject_OutputsSkipped \<longleftrightarrow> r = None) \<and>
           (exit = ExitStatus_Success \<longleftrightarrow> r \<noteq> None) \<and>
           (\<forall>order. r = Some order \<longrightarrow>
              (\<forall>n \<in> set order. \<forall>d. configFileCache st' (toPath h n) = Some (Inl d) \<longrightarrow>
                 map_of (diagnostics st') (toPath h n) = Some [d] \<and>
                 ReportDiagnostic d \<in> set (hostReports st')))"
proof -
  from getBuildOrderFor_total [OF assms, of project] obtain order0 st0 r st1 where
    g0: "getBuildOrder fuel h st = Some (order0, st0)" and
    g: "getBuildOrderFor fuel h project st = Some (r, st1)" and
    found: "r = None \<longleftrightarrow>
              (\<exists>rp. requestedProject h project = Some rp \<and> toPath h rp \<notin> toPath h ` set order0)"
    by blast
  show ?thesis
  proof (cases r)
    case None
    with g have "clean fuel h project st = Some (ExitStatus_InvalidProject_OutputsSkipped, st1)"
      by (simp add: clean_def)
    with g0 g found None show ?thesis by auto
  next
    case (Some order)
    obtain f2 st2 where cp: "cleanProjects h order
        (if dry (buildOptions st1) then Some [] else None, st1) = (f2, st2)"
      by (cases "cleanProjects h order (if dry (buildOptions st1) then Some [] else None, st1)")
    let ?st' = "case f2 of
                  Some collected \<Rightarrow>
                    reportStatus A_non_dry_build_would_delete_the_following_files_Colon_0
                      [concat (map (\<lambda>f. crlf @ '' * '' @ f) collected)] st2
                | None \<Rightarrow> st2"
    from g Some cp have c: "clean fuel h project st = Some (ExitStatus_Success, ?st')"
      by (simp add: clean_def)
    have same: "configFileCache ?st' = configFileCache st2" "diagnostics ?st' = diagnostics st2"
      "set (hostReports st2) \<subseteq> set (hostReports ?st')"
      by (cases f2; simp add: reportStatus_def; blast)+
    have stored: "\<forall>n \<in> set order. \<forall>d. configFileCache ?st' (toPath h n) = Some (Inl d) \<longrightarrow>
                 map_of (diagnostics ?st') (toPath h n) = Some [d] \<and>
                 ReportDiagnostic d \<in> set (hostReports ?st')"
    proof (intro ballI allI impI)
      fix n d assume n: "n \<in> set order" and "configFileCache ?st' (toPath h n) = Some (Inl d)"
      with same(1) have "configFileCache st2 (toPath h n) = Some (Inl d)" by simp
      with cleanProjects_stores [OF cp] n
      have "map_of (diagnostics st2) (toPath h n) = Some [d]"
        "ReportDiagnostic d \<in> set (hostReports st2)" by blast+
      with same show "map_of (diagnostics ?st') (toPath h n) = Some [d] \<and>
                 ReportDiagnostic d \<in> set (hostReports ?st')" by auto
    qed
    from g0 g found c Some stored show ?thesis
      by (intro exI [of _ order0] exI [of _ st0] exI [of _ r] exI [of _ st1]
          exI [of _ ExitStatus_Success] exI [of _ ?st']) simp
  qed
qed

lemma clean_order_example:
  "map_option fst (getBuildOrder 4 (exampleHost blockedConfigs)
      (exampleBuilder [''/p/tsconfig.json'', ''/zz/tsconfig.json''] plainOptions sourceFiles))
   = Some [''/r0/tsconfig.json'', ''/r2/tsconfig.json'', ''/p/tsconfig.json'', ''/zz/tsconfig.json'']"
  "map_option fst (getBuildOrderFor 4 (exampleHost blockedConfigs) None
      (exampleBuilder [''/p/tsconfig.json'', ''/zz/tsconfig.json''] plainOptions sourceFiles))
   = Some (Some [''/r0/tsconfig.json'', ''/r2/tsconfig.json'', ''/p/tsconfig.json'',
                 ''/zz/tsconfig.json''])"
  by (simp_all add: driver_defs example_defs exampleBuilder_def
      parseConfigFile_def blockedConfigs_def eval_nat_numeral Let_def)

lemma clean_example:
  "map_option (\<lambda>(e, st). (hostWrites st, configFileCache st ''/zz/tsconfig.json''))
     (clean 4 (exampleHost blockedConfigs) None
        (exampleBuilder [''/p/tsconfig.json'', ''/zz/tsconfig.json''] plainOptions sourceFiles))
   = Some ([DeleteFile ''/r0/r0.ts.js''], Some (Inl ''cannot read /zz/tsconfig.json''))"
  by (simp add: clean_def driver_defs example_defs exampleBuilder_def invalidateProject_def
      clearProjectStatus_def hostDeleteFile_def reportParseConfigFileDiagnostic_def
      parseConfigFile_def blockedConfigs_def eval_nat_numeral Let_def)

theorem clean_exit_status_witness:
  "finite (parseablePaths (exampleHost blockedConfigs)
      (exampleBuilder [''/p/tsconfig.json'', ''/zz/tsconfig.json''] plainOptions sourceFiles)) \<and>
   card (parseablePaths (exampleHost blockedConfigs)
      (exampleBuilder [''/p/tsconfig.json'', ''/zz/tsconfig.json''] plainOptions sourceFiles)) < 4 \<and>
   map_option fst (clean 4 (exampleHost blockedConfigs) None
      (exampleBuilder [''/p/tsconfig.json'', ''/zz/tsconfig.json''] plainOptions sourceFiles))
     = Some ExitStatus_Success \<and>
   map_of (diagnostics (snd (the (clean 4 (exampleHost blockedConfigs) None
      (exampleBuilder [''/p/tsconfig.json'', ''/zz/tsconfig.json''] plainOptions sourceFiles)))))
      ''/zz/tsconfig.json'' = Some [''cannot read /zz/tsconfig.json''] \<and>
   map_option fst (clean 4 (exampleHost blockedConfigs) (Some ''/q/tsconfig.json'')
      (exampleBuilder [''/p/tsconfig.json'', ''/zz/tsconfig.json''] plainOptions sourceFiles))
     = Some ExitStatus_InvalidProject_OutputsSkipped"
proof -
  let ?H = "exampleHost blockedConfigs"
  let ?S = "exampleBuilder [''/p/tsconfig.json'', ''/zz/tsconfig.json''] plainOptions sourceFiles"
  let ?order = "[''/r0/tsconfig.json'', ''/r2/tsconfig.json'', ''/p/tsconfig.json'',
                 ''/zz/tsconfig.json'']"
  have f: "finite (parseablePaths ?H ?S)" by (rule exampleBuilder_parseable)
  have c: "card (parseablePaths ?H ?S) < 4"
    using exampleBuilder_parseable(2) [of blockedConfigs "[''/p/tsconfig.json'', ''/zz/tsconfig.json'']"
        plainOptions sourceFiles]
    by (simp add: blockedConfigs_def)
  from clean_exit_status [OF f c, of None] obtain order0 st0 r st1 exit st' where
    g: "getBuildOrderFor 4 ?H None ?S = Some (r, st1)" and
    cl: "clean 4 ?H None ?S = Some (exit, st')" and
    found: "r = None \<longleftrightarrow>
              (\<exists>rp. requestedProject ?H None = Some rp \<and> toPath ?H rp \<notin> toPath ?H ` set order0)" and
    ok: "exit = ExitStatus_Success \<longleftrightarrow> r \<noteq> None" and
    stored: "\<forall>order. r = Some order \<longrightarrow>
              (\<forall>n \<in> set order. \<forall>d. configFileCache st' (toPath ?H n) = Some (Inl d) \<longrightarrow>
                 map_of (diagnostics st') (toPath ?H n) = Some [d] \<and>
                 ReportDiagnostic d \<in> set (hostReports st'))"
    by blast
  from found have "r \<noteq> None" by (simp add: requestedProject_def)
  with ok have e: "exit = ExitStatus_Success" by simp
  from g clean_order_example(2) have r: "r = Some ?order" by simp
  from cl clean_example have z: "configFileCache st' ''/zz/tsconfig.json''
      = Some (Inl ''cannot read /zz/tsconfig.json'')" by simp
  have "''/zz/tsconfig.json'' \<in> set ?order" by simp
  with stored r have "\<forall>d. configFileCache st' (toPath ?H ''/zz/tsconfig.json'') = Some (Inl d) \<longrightarrow>
       map_of (diagnostics st') (toPath ?H ''/zz/tsconfig.json'') = Some [d]" by blast
  with z have dg: "map_of (diagnostics st') ''/zz/tsconfig.json'' = Some [''cannot read /zz/tsconfig.json'']"
    by (simp add: exampleHost_def)
  from clean_exit_status [OF f c, of "Some ''/q/tsconfig.json''"] obtain order0' st0' r' st1' exit' st'' where
    g0': "getBuildOrder 4 ?H ?S = Some (order0', st0')" and
    cl': "clean 4 ?H (Some ''/q/tsconfig.json'') ?S = Some (exit', st'')" and
    found': "r' = None \<longleftrightarrow>
              (\<exists>rp. requestedProject ?H (Some ''/q/tsconfig.json'') = Some rp \<and>
                    toPath ?H rp \<notin> toPath ?H ` set order0')" and
    bad: "exit' = ExitStatus_InvalidProject_OutputsSkipped \<longleftrightarrow> r' = None"
    by blast
  from g0' clean_order_example(1) have o: "order0' = ?order" by simp
  have "requestedProject ?H (Some ''/q/tsconfig.json'') = Some ''/q/tsconfig.json''"
    by (simp add: requestedProject_def exampleHost_def)
  moreover have "toPath ?H ''/q/tsconfig.json'' \<notin> toPath ?H ` set ?order"
    by (simp add: exampleHost_def)
  ultimately have "r' = None" using found' o by simp
  with bad have e': "exit' = ExitStatus_InvalidProject_OutputsSkipped" by simp
  from f c cl e dg cl' e' show ?thesis by simp
qed


end
